theory Spec2Isabelle
  imports Main
begin

section \<open>JavaScript strings\<close>

text \<open>
  A JavaScript string is a sequence of UTF-16 code units; \<open>length\<close>, \<open>includes\<close>,
  \<open>startsWith\<close> and the (non-unicode) regular expressions of the source all work on code
  units. The "new issue" glyph is the two units U+25B6 U+FE0F, the "done" glyph the single
  unit U+2705.
\<close>

type_synonym jstring = "nat list"

definition str :: "string \<Rightarrow> jstring" where
  "str s = map of_char s"

definition PLAY :: jstring where
  "PLAY = [9654, 65039]"

definition CHECK :: jstring where
  "CHECK = [9989]"

text \<open>The code units that \<open>String.prototype.trim\<close> strips and that \<open>\s\<close> matches.\<close>

definition isWhiteSpace :: "nat \<Rightarrow> bool" where
  "isWhiteSpace c =
     (c \<in> set [9, 10, 11, 12, 13, 32, 160, 5760, 8232, 8233, 8239, 8287, 12288, 65279]
      \<or> (8192 \<le> c \<and> c \<le> 8202))"

definition trim :: "jstring \<Rightarrow> jstring" where
  "trim s = rev (dropWhile isWhiteSpace (rev (dropWhile isWhiteSpace s)))"

definition startsWith :: "jstring \<Rightarrow> jstring \<Rightarrow> bool" where
  "startsWith s p = (take (length p) s = p)"

text \<open>\<open>s.includes(t)\<close>: \<open>t\<close> occurs in \<open>s\<close> as a contiguous run of code units.\<close>

fun js_includes :: "jstring \<Rightarrow> jstring \<Rightarrow> bool" where
  "js_includes [] t = (t = [])"
| "js_includes (c # s) t = (startsWith (c # s) t \<or> js_includes s t)"

text \<open>
  \<open>String.prototype.toLowerCase\<close> follows the case table of the JavaScript runtime, which is
  not part of the repository: every function of the source that calls it takes it as the
  parameter \<open>toLowerCase\<close>, and the general theorems below hold for every such function.

  \<open>asciiLowerCase\<close> folds the letters A to Z and nothing else. It is what the flag \<open>i\<close> of
  a (non-unicode) regular expression does to the ASCII letters of a pattern, and it is
  what \<open>toLowerCase\<close> does to a string of ASCII units and the units of the two glyphs,
  which no case table changes; the sample data is made of such strings only, and the
  theorems about the sample data take \<open>asciiLowerCase\<close> for the parameter.
\<close>

definition asciiLowerCase :: "jstring \<Rightarrow> jstring" where
  "asciiLowerCase s = map (\<lambda>c. if 65 \<le> c \<and> c \<le> 90 then c + 32 else c) s"

text \<open>\<open>s.replace(/\<checkmark>\s*/, '')\<close> with the "done" glyph: the first occurrence only.\<close>

fun replaceCheck :: "jstring \<Rightarrow> jstring" where
  "replaceCheck [] = []"
| "replaceCheck (c # s) =
     (if c = 9989 then dropWhile isWhiteSpace s else c # replaceCheck s)"

text \<open>\<open>s.replace(/^\<triangleright>\s*/, '')\<close> with the "new issue" glyph.\<close>

definition stripPlayPrefix :: "jstring \<Rightarrow> jstring" where
  "stripPlayPrefix s =
     (if startsWith s PLAY then dropWhile isWhiteSpace (drop 2 s) else s)"

text \<open>
  \<open>s.replace(/^bug:\s*/i, '')\<close>. Without the flag \<open>u\<close> a unit outside ASCII never matches
  an ASCII letter of the pattern, so the prefix is one of the sixteen spellings of "bug:"
  in ASCII letters.
\<close>

definition stripBugPrefix :: "jstring \<Rightarrow> jstring" where
  "stripBugPrefix s =
     (if 4 \<le> length s \<and> asciiLowerCase (take 4 s) = str ''bug:''
      then dropWhile isWhiteSpace (drop 4 s) else s)"

text \<open>
  \<open>s.split(/\s+/)\<close>: the pieces between maximal runs of white space; a string without
  white space (the empty one too) is its own single piece.
\<close>

function splitWhiteSpace :: "jstring \<Rightarrow> jstring list" where
  "splitWhiteSpace s =
     (let w = takeWhile (\<lambda>c. \<not> isWhiteSpace c) s;
          r = dropWhile (\<lambda>c. \<not> isWhiteSpace c) s
      in if r = [] then [w] else w # splitWhiteSpace (dropWhile isWhiteSpace r))"
  by pat_completeness auto
termination
proof (relation "measure length")
  show "wf (measure length)" by simp
next
  fix s :: jstring and w r
  assume r: "r = dropWhile (\<lambda>c. \<not> isWhiteSpace c) s" and ne: "r \<noteq> []"
  from ne obtain c cs where rc: "r = c # cs" by (cases r) auto
  have "length (dropWhile isWhiteSpace r) \<le> length r"
    by (rule length_dropWhile_le)
  moreover have "isWhiteSpace c"
    using r rc dropWhile_eq_Cons_conv [of "\<lambda>c. \<not> isWhiteSpace c" s c cs] by simp
  then have "length (dropWhile isWhiteSpace r) < length r"
    using rc length_dropWhile_le [of isWhiteSpace cs] by simp
  moreover have "length r \<le> length s"
    unfolding r by (rule length_dropWhile_le)
  ultimately show "(dropWhile isWhiteSpace r, s) \<in> measure length" by simp
qed

declare splitWhiteSpace.simps [simp del]

section \<open>Marker detection (bot.ts)\<close>

definition isNewBugReport :: "jstring \<Rightarrow> bool" where
  "isNewBugReport content = startsWith (trim content) PLAY"

definition isCompletionMarker :: "jstring \<Rightarrow> bool" where
  "isCompletionMarker content = (let trimmed = trim content in js_includes trimmed CHECK)"

datatype BugType = TypeBug | TypeRequest

definition bugKeywords :: "jstring list" where
  "bugKeywords = map str [''bug'', ''issue'', ''broken'', ''error'', ''crash'', ''fail'',
     ''problem'', ''not working'', ''doesn't work'', ''doesnt work'']"

definition detectType :: "(jstring \<Rightarrow> jstring) \<Rightarrow> jstring \<Rightarrow> BugType" where
  "detectType toLowerCase content =
     (let lower = toLowerCase content
      in if list_ex (\<lambda>keyword. js_includes lower keyword) bugKeywords
         then TypeBug else TypeRequest)"

section \<open>The store (db.ts)\<close>

text \<open>
  Discord ids (snowflakes) are decimal strings in the source, compared with \<open>===\<close> and,
  for the watermark, through \<open>BigInt\<close>; they are natural numbers here. Time stamps are
  the fixed-width ISO strings of \<open>toISOString\<close>, whose string order is the order of the
  instants; they are natural numbers (milliseconds) here. Field names carry a prefix
  (\<open>b_\<close>, \<open>u_\<close>, \<open>r_\<close>, \<open>m_\<close>) since several interfaces of the source share them.
\<close>

datatype BugStatus = Open | Fixed

record Reaction =
  r_emoji :: jstring
  r_count :: nat
  r_users :: "string list"

type_synonym url = "nat option \<times> nat \<times> nat"

record Bug =
  b_id :: nat
  b_discord_message_id :: nat
  b_channel_id :: nat
  b_channel_name :: string
  b_author_id :: nat
  b_author_name :: string
  b_content :: jstring
  b_type :: BugType
  b_status :: BugStatus
  b_created_at :: nat
  b_updated_at :: nat
  b_discord_url :: url
  b_reactions :: "Reaction list"

datatype AttachmentType = Screenshot | Link | Conversation

record BugUpdate =
  u_id :: nat
  u_bug_id :: nat
  u_discord_message_id :: nat
  u_author_id :: nat
  u_author_name :: string
  u_content :: jstring
  u_created_at :: nat
  u_discord_url :: url
  u_reactions :: "Reaction list"
  u_attachment_type :: "AttachmentType option"
  u_attachment_url :: "string option"
  u_attachment_data :: "string option"

text \<open>
  The tables \<open>bugs\<close> and \<open>bug_updates\<close> in insertion order, each with the counter of its
  \<open>AUTOINCREMENT\<close> key (the largest key given out so far), the table \<open>scan_state\<close>
  (channel to last message id and time of the save) and the channel ids of
  \<open>monitored_channels\<close>.
\<close>

record Database =
  bugs :: "Bug list"
  bugs_seq :: nat
  bug_updates :: "BugUpdate list"
  bug_updates_seq :: nat
  scan_state :: "nat \<rightharpoonup> nat \<times> nat"
  monitored_channels :: "nat list"

definition emptyDatabase :: Database where
  "emptyDatabase = \<lparr>bugs = [], bugs_seq = 0, bug_updates = [], bug_updates_seq = 0,
     scan_state = Map.empty, monitored_channels = []\<rparr>"

text \<open>
  The only error the modelled statements can raise besides the caught
  \<open>SQLITE_CONSTRAINT_UNIQUE\<close>: the declared \<open>FOREIGN KEY (bug_id) REFERENCES bugs(id)\<close>.
  The unique index is checked on the row, the foreign key at the end of the statement,
  so a row that breaks both reports the unique violation.
\<close>

datatype db_error = SQLITE_CONSTRAINT_FOREIGNKEY

definition getBugById :: "Database \<Rightarrow> nat \<Rightarrow> Bug option" where
  "getBugById db i = find (\<lambda>b. b_id b = i) (bugs db)"

definition getBugByMessageId :: "Database \<Rightarrow> nat \<Rightarrow> Bug option" where
  "getBugByMessageId db messageId = find (\<lambda>b. b_discord_message_id b = messageId) (bugs db)"

text \<open>
  \<open>addBug\<close> takes \<open>Omit<Bug, 'id'>\<close>: the \<open>b_id\<close> of the argument is not read. A
  duplicate \<open>discord_message_id\<close> makes the \<open>INSERT\<close> fail, which is caught and
  answered with \<open>null\<close>.
\<close>

definition addBug :: "Bug \<Rightarrow> Database \<Rightarrow> Bug option \<times> Database" where
  "addBug bug db =
     (if b_discord_message_id bug \<in> set (map b_discord_message_id (bugs db))
      then (None, db)
      else let lastInsertRowid = Suc (bugs_seq db);
               db' = db\<lparr>bugs := bugs db @ [bug\<lparr>b_id := lastInsertRowid\<rparr>],
                        bugs_seq := lastInsertRowid\<rparr>
           in (getBugById db' lastInsertRowid, db'))"

definition addBugUpdate ::
  "BugUpdate \<Rightarrow> Database \<Rightarrow> db_error + (BugUpdate option \<times> Database)" where
  "addBugUpdate update db =
     (if u_discord_message_id update \<in> set (map u_discord_message_id (bug_updates db))
      then Inr (None, db)
      else if u_bug_id update \<notin> set (map b_id (bugs db))
      then Inl SQLITE_CONSTRAINT_FOREIGNKEY
      else let lastInsertRowid = Suc (bug_updates_seq db);
               row = update\<lparr>u_id := lastInsertRowid\<rparr>;
               db1 = db\<lparr>bug_updates := bug_updates db @ [row],
                        bug_updates_seq := lastInsertRowid\<rparr>;
               db2 = db1\<lparr>bugs := map (\<lambda>b. if b_id b = u_bug_id update
                                             then b\<lparr>b_updated_at := u_created_at update\<rparr>
                                             else b) (bugs db1)\<rparr>
           in Inr (Some row, db2))"

definition updateUpdateReactions :: "nat \<Rightarrow> Reaction list \<Rightarrow> Database \<Rightarrow> Database" where
  "updateUpdateReactions discordMessageId reactions db =
     db\<lparr>bug_updates := map (\<lambda>u. if u_discord_message_id u = discordMessageId
                                  then u\<lparr>u_reactions := reactions\<rparr> else u) (bug_updates db)\<rparr>"

text \<open>\<open>result?.bug_id || null\<close>: a missing row and the key 0 both give \<open>null\<close>.\<close>

definition getBugIdFromUpdateMessage :: "Database \<Rightarrow> nat \<Rightarrow> nat option" where
  "getBugIdFromUpdateMessage db discordMessageId =
     (case find (\<lambda>u. u_discord_message_id u = discordMessageId) (bug_updates db) of
        None \<Rightarrow> None
      | Some u \<Rightarrow> if u_bug_id u = 0 then None else Some (u_bug_id u))"

definition updateBugReactions :: "nat \<Rightarrow> Reaction list \<Rightarrow> Database \<Rightarrow> Database" where
  "updateBugReactions discordMessageId reactions db =
     db\<lparr>bugs := map (\<lambda>b. if b_discord_message_id b = discordMessageId
                           then b\<lparr>b_reactions := reactions\<rparr> else b) (bugs db)\<rparr>"

text \<open>The second argument of the time is \<open>new Date()\<close> at the call.\<close>

definition updateBugStatus :: "nat \<Rightarrow> BugStatus \<Rightarrow> nat \<Rightarrow> Database \<Rightarrow> Database" where
  "updateBugStatus bugId status now db =
     db\<lparr>bugs := map (\<lambda>b. if b_id b = bugId
                           then b\<lparr>b_status := status, b_updated_at := now\<rparr> else b) (bugs db)\<rparr>"

definition getBugUpdates :: "Database \<Rightarrow> nat \<Rightarrow> BugUpdate list" where
  "getBugUpdates db bugId =
     sort_key u_created_at (filter (\<lambda>u. u_bug_id u = bugId) (bug_updates db))"

text \<open>
  \<open>ORDER BY updated_at DESC\<close>: the latest \<open>updated_at\<close> first. Rows with equal
  \<open>updated_at\<close> come out of SQLite in the order in which the table delivers them to the
  sorter, the earlier row (the smaller \<open>id\<close>) first: the sort is stable on the negated
  key. \<open>LIMIT\<close> cuts the sorted rows.
\<close>

definition getOpenBugs :: "Database \<Rightarrow> Bug list" where
  "getOpenBugs db =
     sort_key (\<lambda>b. - int (b_updated_at b)) (filter (\<lambda>b. b_status b = Open) (bugs db))"

definition getRecentlyActiveBugs :: "Database \<Rightarrow> nat \<Rightarrow> nat \<Rightarrow> Bug list" where
  "getRecentlyActiveBugs db channelId limit =
     take limit (sort_key (\<lambda>b. - int (b_updated_at b))
       (filter (\<lambda>b. b_channel_id b = channelId \<and> b_status b = Open) (bugs db)))"

definition saveScanState :: "nat \<Rightarrow> nat \<Rightarrow> nat \<Rightarrow> Database \<Rightarrow> Database" where
  "saveScanState channelId lastMessageId now db =
     db\<lparr>scan_state := (scan_state db)(channelId \<mapsto> (lastMessageId, now))\<rparr>"

definition getScanState :: "Database \<Rightarrow> nat \<Rightarrow> (nat \<times> nat) option" where
  "getScanState db channelId = scan_state db channelId"

definition getAllMonitoredChannelIds :: "Database \<Rightarrow> nat list" where
  "getAllMonitoredChannelIds db = monitored_channels db"

section \<open>The analyzer (analyzer.ts)\<close>

datatype Confidence = High | Medium | Low

record MatchResult =
  mr_bugId :: "nat option"
  mr_confidence :: Confidence
  mr_reasoning :: "string option"

record AddToBugResult =
  ar_shouldAdd :: bool
  ar_bugId :: "nat option"
  ar_confidence :: Confidence
  ar_reasoning :: "string option"

text \<open>
  What one request to the AI service comes to, after the text of the answer has been
  matched against \<open>/\{[\s\S]*\}/\<close> and parsed: the request or \<open>JSON.parse\<close> throws, the
  answer holds no JSON object, or it holds one, of which the fields read afterwards are
  kept (\<open>!!parsed.shouldAdd\<close>; an absent \<open>bugId\<close> or \<open>confidence\<close> is \<open>None\<close>).
\<close>

datatype 'a reply = Failed | NoJson | Json 'a

record ParsedMatch =
  pm_bugId :: "nat option"
  pm_confidence :: "Confidence option"
  pm_reasoning :: "string option"

record ParsedAdd =
  pa_shouldAdd :: bool
  pa_bugId :: "nat option"
  pa_confidence :: "Confidence option"
  pa_reasoning :: "string option"

type_synonym BugBrief = "nat \<times> jstring \<times> string"

text \<open>
  The analyzer object: the AI service behind \<open>this.client.messages.create\<close>, as the answer
  it gives to the prompt built from the arguments of each of the two methods.
\<close>

record MessageAnalyzer =
  completion_reply :: "jstring \<Rightarrow> BugBrief list \<Rightarrow> ParsedMatch reply"
  context_reply ::
    "jstring \<Rightarrow> string \<Rightarrow> BugBrief list \<Rightarrow> (string \<times> jstring \<times> nat option) list \<Rightarrow> ParsedAdd reply"

text \<open>Both methods return their result and the number of requests sent to the service.\<close>

definition shouldAddToBug ::
  "MessageAnalyzer \<Rightarrow> jstring \<Rightarrow> string \<Rightarrow> BugBrief list \<Rightarrow> (string \<times> jstring \<times> nat option) list
     \<Rightarrow> AddToBugResult \<times> nat" where
  "shouldAddToBug a messageContent messageAuthor recentBugs recentMessages =
     (if recentBugs = []
      then (\<lparr>ar_shouldAdd = False, ar_bugId = None, ar_confidence = High, ar_reasoning = None\<rparr>, 0)
      else (case context_reply a messageContent messageAuthor recentBugs recentMessages of
              Json parsed \<Rightarrow>
                \<lparr>ar_shouldAdd = pa_shouldAdd parsed, ar_bugId = pa_bugId parsed,
                 ar_confidence = (case pa_confidence parsed of None \<Rightarrow> Medium | Some c \<Rightarrow> c),
                 ar_reasoning = pa_reasoning parsed\<rparr>
            | NoJson \<Rightarrow>
                \<lparr>ar_shouldAdd = False, ar_bugId = None, ar_confidence = Low, ar_reasoning = None\<rparr>
            | Failed \<Rightarrow>
                \<lparr>ar_shouldAdd = False, ar_bugId = None, ar_confidence = Low, ar_reasoning = None\<rparr>,
            1))"

definition matchCompletionToBug ::
  "MessageAnalyzer \<Rightarrow> jstring \<Rightarrow> BugBrief list \<Rightarrow> MatchResult \<times> nat" where
  "matchCompletionToBug a completionText openBugs =
     (if length openBugs = 0
      then (\<lparr>mr_bugId = None, mr_confidence = High,
             mr_reasoning = Some ''No open bugs to match''\<rparr>, 0)
      else if length openBugs = 1
      then (\<lparr>mr_bugId = Some (fst (hd openBugs)), mr_confidence = Medium,
             mr_reasoning = Some ''Only one open bug''\<rparr>, 0)
      else (case completion_reply a completionText openBugs of
              Json parsed \<Rightarrow>
                \<lparr>mr_bugId = pm_bugId parsed,
                 mr_confidence = (case pm_confidence parsed of None \<Rightarrow> Medium | Some c \<Rightarrow> c),
                 mr_reasoning = pm_reasoning parsed\<rparr>
            | NoJson \<Rightarrow> \<lparr>mr_bugId = None, mr_confidence = Low, mr_reasoning = None\<rparr>
            | Failed \<Rightarrow> \<lparr>mr_bugId = None, mr_confidence = Low, mr_reasoning = None\<rparr>,
            1))"

text \<open>
  The body of the loop of \<open>findExactOrCloseMatch\<close> for one bug: containment either way,
  equality after the prefixes are stripped, or word overlap. \<open>matches / max > 0.7\<close> is
  computed in floating point in the source; on word counts it holds exactly when
  \<open>10 * matches > 7 * max\<close>.
\<close>

definition closeMatch :: "(jstring \<Rightarrow> jstring) \<Rightarrow> jstring \<Rightarrow> jstring \<Rightarrow> bool" where
  "closeMatch toLowerCase normalizedText content =
     (let normalizedBug = toLowerCase content
      in if js_includes normalizedBug normalizedText \<or> js_includes normalizedText normalizedBug
         then True
         else let bugTextAfterPrefix = trim (stripBugPrefix (stripPlayPrefix normalizedBug));
                  completionTextClean = trim (stripBugPrefix (stripPlayPrefix normalizedText))
              in if bugTextAfterPrefix = completionTextClean then True
                 else let bugWords = remdups (filter (\<lambda>w. 2 < length w)
                                        (splitWhiteSpace bugTextAfterPrefix));
                          textWords = filter (\<lambda>w. 2 < length w)
                                        (splitWhiteSpace completionTextClean)
                      in if 0 < length textWords \<and> 0 < length bugWords
                         then let matches = length (filter (\<lambda>w. w \<in> set bugWords) textWords)
                              in 7 * max (length textWords) (length bugWords) < 10 * matches
                         else False)"

fun firstCloseMatch :: "(jstring \<Rightarrow> jstring) \<Rightarrow> jstring \<Rightarrow> (nat \<times> jstring) list \<Rightarrow> nat option" where
  "firstCloseMatch toLowerCase normalizedText [] = None"
| "firstCloseMatch toLowerCase normalizedText (bug # rest) =
     (if closeMatch toLowerCase normalizedText (snd bug) then Some (fst bug)
      else firstCloseMatch toLowerCase normalizedText rest)"

definition findExactOrCloseMatch ::
  "(jstring \<Rightarrow> jstring) \<Rightarrow> jstring \<Rightarrow> (nat \<times> jstring) list \<Rightarrow> nat option" where
  "findExactOrCloseMatch toLowerCase text candidates =
     (let normalizedText = trim (toLowerCase text) in firstCloseMatch toLowerCase normalizedText candidates)"

section \<open>The bot (bot.ts)\<close>

text \<open>
  A message as the gateway delivers it. \<open>m_reference\<close> is \<open>message.reference?.messageId\<close>,
  \<open>m_createdAt\<close> both \<open>createdAt\<close> and \<open>createdTimestamp\<close>, \<open>m_reactions\<close> the reaction
  cache: emoji name, count, and the user names \<open>reaction.users.fetch\<close> gives (\<open>None\<close> when
  that fetch throws).
\<close>

record Message =
  m_id :: nat
  m_channelId :: nat
  m_guildId :: "nat option"
  m_author_id :: nat
  m_author_username :: string
  m_author_bot :: bool
  m_content :: jstring
  m_reference :: "nat option"
  m_createdAt :: nat
  m_reactions :: "(jstring \<times> nat \<times> string list option) list"

record FetchOptions =
  fo_limit :: nat
  fo_before :: "nat option"
  fo_after :: "int option"

text \<open>
  The chat gateway: \<open>client.channels.fetch\<close> (the name of the text channel; \<open>None\<close> when
  the fetch throws or gives no text channel), \<open>channel.messages.fetch(options)\<close> (a page,
  newest first; \<open>None\<close> when it throws) and \<open>channel.messages.fetch(id)\<close>.
\<close>

record Gateway =
  gw_channel_name :: "nat \<Rightarrow> string option"
  gw_fetch :: "nat \<Rightarrow> FetchOptions \<Rightarrow> Message list option"
  gw_fetch_message :: "nat \<Rightarrow> nat \<Rightarrow> Message option"

record RecentMessage =
  rm_id :: nat
  rm_author :: string
  rm_authorId :: nat
  rm_content :: jstring
  rm_bugId :: "nat option"
  rm_timestamp :: nat

text \<open>
  The state of \<open>BugTrackerBot\<close>: the store, the fallback channel ids of the configuration,
  the optional analyzer, the recent-message cache, and the number of requests sent to
  the AI service so far.
\<close>

record Bot =
  bot_db :: Database
  bot_channelIds :: "nat list option"
  bot_analyzer :: "MessageAnalyzer option"
  bot_recentMessages :: "nat \<rightharpoonup> RecentMessage list"
  bot_requests :: nat

definition MAX_RECENT_MESSAGES :: nat where
  "MAX_RECENT_MESSAGES = 10"

definition DISCORD_EPOCH :: int where
  "DISCORD_EPOCH = 1420070400000"

definition dateToSnowflake :: "nat \<Rightarrow> int" where
  "dateToSnowflake date = (int date - DISCORD_EPOCH) * 2 ^ 22"

text \<open>The truth value of a \<open>number | null\<close> in a condition: \<open>null\<close> and 0 are false.\<close>

definition truthy :: "nat option \<Rightarrow> bool" where
  "truthy v = (case v of None \<Rightarrow> False | Some n \<Rightarrow> n \<noteq> 0)"

definition getMonitoredChannelIds :: "Bot \<Rightarrow> nat list" where
  "getMonitoredChannelIds self =
     (let dbChannels = getAllMonitoredChannelIds (bot_db self)
      in case bot_channelIds self of
           Some channelIds \<Rightarrow> if length dbChannels = 0 then channelIds else dbChannels
         | None \<Rightarrow> dbChannels)"

definition isMonitoredChannel :: "Bot \<Rightarrow> nat \<Rightarrow> bool" where
  "isMonitoredChannel self channelId = (channelId \<in> set (getMonitoredChannelIds self))"

definition discordUrl :: "Message \<Rightarrow> url" where
  "discordUrl message = (m_guildId message, m_channelId message, m_id message)"

definition extractReactions :: "Message \<Rightarrow> Reaction list" where
  "extractReactions message =
     map (\<lambda>(name, n, fetched).
            \<lparr>r_emoji = name, r_count = n,
             r_users = (case fetched of Some usernames \<Rightarrow> usernames | None \<Rightarrow> [])\<rparr>)
         (m_reactions message)"

definition hasCheckReaction :: "Reaction list \<Rightarrow> bool" where
  "hasCheckReaction reactions =
     list_ex (\<lambda>r. r_emoji r = CHECK \<or> r_emoji r = str ''white_check_mark'') reactions"

text \<open>The object literal each \<open>addBug\<close> call of the bot passes.\<close>

definition newBug :: "(jstring \<Rightarrow> jstring) \<Rightarrow> string \<Rightarrow> BugStatus \<Rightarrow> Message \<Rightarrow> Bug" where
  "newBug toLowerCase channelName status message =
     \<lparr>b_id = 0, b_discord_message_id = m_id message, b_channel_id = m_channelId message,
      b_channel_name = channelName, b_author_id = m_author_id message,
      b_author_name = m_author_username message, b_content = m_content message,
      b_type = detectType toLowerCase (m_content message), b_status = status,
      b_created_at = m_createdAt message, b_updated_at = m_createdAt message,
      b_discord_url = discordUrl message, b_reactions = extractReactions message\<rparr>"

text \<open>The object literal each \<open>addBugUpdate\<close> call of the bot passes.\<close>

definition newUpdate :: "nat \<Rightarrow> Message \<Rightarrow> BugUpdate" where
  "newUpdate bugId message =
     \<lparr>u_id = 0, u_bug_id = bugId, u_discord_message_id = m_id message,
      u_author_id = m_author_id message, u_author_name = m_author_username message,
      u_content = m_content message, u_created_at = m_createdAt message,
      u_discord_url = discordUrl message, u_reactions = extractReactions message,
      u_attachment_type = None, u_attachment_url = None, u_attachment_data = None\<rparr>"

definition addToRecentMessages :: "nat \<Rightarrow> Message \<Rightarrow> nat option \<Rightarrow> Bot \<Rightarrow> Bot" where
  "addToRecentMessages channelId message bugId self =
     (let recent = (case bot_recentMessages self channelId of Some l \<Rightarrow> l | None \<Rightarrow> []);
          recent = recent @ [\<lparr>rm_id = m_id message, rm_author = m_author_username message,
                              rm_authorId = m_author_id message, rm_content = m_content message,
                              rm_bugId = bugId, rm_timestamp = m_createdAt message\<rparr>];
          recent = (if MAX_RECENT_MESSAGES < length recent then tl recent else recent)
      in self\<lparr>bot_recentMessages := (bot_recentMessages self)(channelId \<mapsto> recent)\<rparr>)"

definition createBug :: "(jstring \<Rightarrow> jstring) \<Rightarrow> Gateway \<Rightarrow> Message \<Rightarrow> Bot \<Rightarrow> Bot" where
  "createBug toLowerCase gw message self =
     (let channelName = (case gw_channel_name gw (m_channelId message) of
                           Some name \<Rightarrow> if name = [] then ''unknown'' else name
                         | None \<Rightarrow> ''unknown'');
          (bug, db') = addBug (newBug toLowerCase channelName Open message) (bot_db self)
      in self\<lparr>bot_db := db'\<rparr>)"

text \<open>
  The lookup that \<open>handleReply\<close>, \<open>scanChannelHistory\<close> and \<open>scanExistingMessages\<close> each
  spell out for a reply: the bug whose own message is referenced, else the bug of the
  update whose message is referenced.
\<close>

definition replyTarget :: "Database \<Rightarrow> nat \<Rightarrow> Bug option" where
  "replyTarget db refMessageId =
     (case getBugByMessageId db refMessageId of
        Some bug \<Rightarrow> Some bug
      | None \<Rightarrow> (case getBugIdFromUpdateMessage db refMessageId of
                   Some bugId \<Rightarrow> getBugById db bugId
                 | None \<Rightarrow> None))"

text \<open>
  The lookup that \<open>handleCompletion\<close>, \<open>handleReactionAdd\<close> and the completion branch of
  \<open>scanExistingMessages\<close> each spell out: the id of the bug to mark fixed, which is the
  bug whose own message is referenced when that bug is open, else the bug of the
  referenced update when that bug is open.
\<close>

definition openBugFor :: "Database \<Rightarrow> nat \<Rightarrow> nat option" where
  "openBugFor db messageId =
     (let viaUpdate = (case getBugIdFromUpdateMessage db messageId of
                         Some bugId \<Rightarrow> (case getBugById db bugId of
                                          Some relatedBug \<Rightarrow>
                                            if b_status relatedBug = Open then Some bugId else None
                                        | None \<Rightarrow> None)
                       | None \<Rightarrow> None)
      in case getBugByMessageId db messageId of
           Some bug \<Rightarrow> if b_status bug = Open then Some (b_id bug) else viaUpdate
         | None \<Rightarrow> viaUpdate)"

text \<open>
  \<open>handleCompletion\<close>. Where the source reads the clock (\<open>new Date()\<close> in
  \<open>updateBugStatus\<close>) the model takes \<open>now\<close>.
\<close>

definition handleCompletion :: "(jstring \<Rightarrow> jstring) \<Rightarrow> nat \<Rightarrow> Message \<Rightarrow> Bot \<Rightarrow> Bot" where
  "handleCompletion toLowerCase now message self =
     (let content = m_content message;
          db = bot_db self;
          replied = (case m_reference message of
                       Some refMessageId \<Rightarrow> openBugFor db refMessageId
                     | None \<Rightarrow> None)
      in case replied of
           Some bugId \<Rightarrow> self\<lparr>bot_db := updateBugStatus bugId Fixed now db\<rparr>
         | None \<Rightarrow>
             let completionText = trim (replaceCheck content);
                 openBugs = getOpenBugs db;
                 onlyOpenBug = (\<lambda>self. if length openBugs = 1
                                  then self\<lparr>bot_db := updateBugStatus (b_id (hd openBugs)) Fixed now db\<rparr>
                                  else self)
             in if length openBugs = 0 then self
                else (case bot_analyzer self of
                        Some a \<Rightarrow>
                          let exactMatch = findExactOrCloseMatch toLowerCase completionText
                                             (map (\<lambda>b. (b_id b, b_content b)) openBugs)
                          in if truthy exactMatch
                             then self\<lparr>bot_db := updateBugStatus (the exactMatch) Fixed now db\<rparr>
                             else let (result, n) = matchCompletionToBug a completionText
                                         (map (\<lambda>b. (b_id b, b_content b, b_author_name b)) openBugs);
                                      bot1 = self\<lparr>bot_requests := bot_requests self + n\<rparr>
                                  in if truthy (mr_bugId result) \<and> mr_confidence result \<noteq> Low
                                     then bot1\<lparr>bot_db := updateBugStatus (the (mr_bugId result)) Fixed now db\<rparr>
                                     else onlyOpenBug bot1
                      | None \<Rightarrow> onlyOpenBug self))"

definition handleReply :: "Message \<Rightarrow> Bot \<Rightarrow> db_error + (bool \<times> Bot)" where
  "handleReply message self =
     (case m_reference message of
        None \<Rightarrow> Inr (False, self)
      | Some refMessageId \<Rightarrow>
          (case replyTarget (bot_db self) refMessageId of
             None \<Rightarrow> Inr (False, self)
           | Some bug \<Rightarrow>
               (case addBugUpdate (newUpdate (b_id bug) message) (bot_db self) of
                  Inl e \<Rightarrow> Inl e
                | Inr (update, db') \<Rightarrow>
                    let bot1 = self\<lparr>bot_db := db'\<rparr>
                    in Inr (True, case update of
                                    Some u \<Rightarrow> addToRecentMessages (m_channelId message) message
                                                (Some (b_id bug)) bot1
                                  | None \<Rightarrow> bot1))))"

definition handleContextMessage :: "Message \<Rightarrow> Bot \<Rightarrow> db_error + Bot" where
  "handleContextMessage message self =
     (case bot_analyzer self of
        None \<Rightarrow> Inr (addToRecentMessages (m_channelId message) message None self)
      | Some a \<Rightarrow>
          let recentBugs = getRecentlyActiveBugs (bot_db self) (m_channelId message) 5
          in if length recentBugs = 0
             then Inr (addToRecentMessages (m_channelId message) message None self)
             else let channelRecent = (case bot_recentMessages self (m_channelId message) of
                                         Some l \<Rightarrow> l | None \<Rightarrow> []);
                      (result, n) = shouldAddToBug a (m_content message) (m_author_username message)
                         (map (\<lambda>b. (b_id b, b_content b, b_author_name b)) recentBugs)
                         (map (\<lambda>m. (rm_author m, rm_content m, rm_bugId m)) channelRecent);
                      bot1 = self\<lparr>bot_requests := bot_requests self + n\<rparr>;
                      targetBug = (if ar_shouldAdd result \<and> truthy (ar_bugId result)
                                   then find (\<lambda>b. Some (b_id b) = ar_bugId result) recentBugs
                                   else None)
                  in (case targetBug of
                        None \<Rightarrow> Inr (addToRecentMessages (m_channelId message) message None bot1)
                      | Some b \<Rightarrow>
                          (case addBugUpdate (newUpdate (the (ar_bugId result)) message) (bot_db bot1) of
                             Inl e \<Rightarrow> Inl e
                           | Inr (update, db') \<Rightarrow>
                               (case update of
                                  Some u \<Rightarrow> Inr (addToRecentMessages (m_channelId message) message
                                                   (ar_bugId result) (bot1\<lparr>bot_db := db'\<rparr>))
                                | None \<Rightarrow> Inr (addToRecentMessages (m_channelId message) message
                                                 None (bot1\<lparr>bot_db := db'\<rparr>))))))"

text \<open>
  \<open>handleMessage\<close>, the handler of \<open>messageCreate\<close> and \<open>messageUpdate\<close>. \<open>Inl\<close> is an
  exception that leaves the handler.
\<close>

definition handleMessage ::
  "(jstring \<Rightarrow> jstring) \<Rightarrow> Gateway \<Rightarrow> nat \<Rightarrow> Message \<Rightarrow> Bot \<Rightarrow> db_error + Bot" where
  "handleMessage toLowerCase gw now message self =
     (if m_author_bot message then Inr self
      else if \<not> isMonitoredChannel self (m_channelId message) then Inr self
      else let content = m_content message
           in if isNewBugReport content
              then Inr (addToRecentMessages (m_channelId message) message None
                          (createBug toLowerCase gw message self))
              else if isCompletionMarker content
              then Inr (handleCompletion toLowerCase now message self)
              else (case m_reference message of
                      Some refMessageId \<Rightarrow>
                        (case handleReply message self of
                           Inl e \<Rightarrow> Inl e
                         | Inr (handled, self') \<Rightarrow>
                             if handled then Inr self' else handleContextMessage message self')
                    | None \<Rightarrow> handleContextMessage message self))"

text \<open>
  \<open>updateMessageReactions\<close>: the first monitored channel in which the message can be
  fetched decides; a fetch that throws moves on to the next channel.
\<close>

fun updateReactionsIn :: "Gateway \<Rightarrow> nat \<Rightarrow> nat list \<Rightarrow> Database \<Rightarrow> Database" where
  "updateReactionsIn gw messageId [] db = db"
| "updateReactionsIn gw messageId (channelId # rest) db =
     (case gw_channel_name gw channelId of
        None \<Rightarrow> updateReactionsIn gw messageId rest db
      | Some name \<Rightarrow>
          (case gw_fetch_message gw channelId messageId of
             None \<Rightarrow> updateReactionsIn gw messageId rest db
           | Some message \<Rightarrow>
               let reactions = extractReactions message
               in (case getBugByMessageId db messageId of
                     Some bug \<Rightarrow> updateBugReactions messageId reactions db
                   | None \<Rightarrow> updateUpdateReactions messageId reactions db)))"

definition updateMessageReactions :: "Gateway \<Rightarrow> nat \<Rightarrow> Bot \<Rightarrow> Bot" where
  "updateMessageReactions gw messageId self =
     self\<lparr>bot_db := updateReactionsIn gw messageId (getMonitoredChannelIds self) (bot_db self)\<rparr>"

definition handleReactionAdd :: "Gateway \<Rightarrow> nat \<Rightarrow> jstring \<Rightarrow> nat \<Rightarrow> Bot \<Rightarrow> Bot" where
  "handleReactionAdd gw now emojiName messageId self =
     (let closes = (if emojiName = CHECK \<or> emojiName = str ''white_check_mark''
                    then openBugFor (bot_db self) messageId else None)
      in case closes of
           Some bugId \<Rightarrow> self\<lparr>bot_db := updateBugStatus bugId Fixed now (bot_db self)\<rparr>
         | None \<Rightarrow> updateMessageReactions gw messageId self)"

text \<open>\<open>syncReactionsOnOpenBugs\<close>: the inner loop over the updates of one bug.\<close>

fun syncUpdates :: "Gateway \<Rightarrow> nat \<Rightarrow> Bug \<Rightarrow> BugUpdate list \<Rightarrow> Database \<Rightarrow> Database" where
  "syncUpdates gw now bug [] db = db"
| "syncUpdates gw now bug (update # rest) db =
     (case gw_fetch_message gw (b_channel_id bug) (u_discord_message_id update) of
        None \<Rightarrow> syncUpdates gw now bug rest db
      | Some updateMessage \<Rightarrow>
          let reactions = extractReactions updateMessage
          in if hasCheckReaction reactions
             then updateUpdateReactions (u_discord_message_id update) reactions
                    (updateBugStatus (b_id bug) Fixed now db)
             else syncUpdates gw now bug rest
                    (updateUpdateReactions (u_discord_message_id update) reactions db))"

text \<open>The body of the outer loop, for one bug of the list read at the start.\<close>

definition syncBug :: "Gateway \<Rightarrow> nat \<Rightarrow> Bug \<Rightarrow> Database \<Rightarrow> Database" where
  "syncBug gw now bug db =
     (case gw_channel_name gw (b_channel_id bug) of
        None \<Rightarrow> db
      | Some name \<Rightarrow>
          (case gw_fetch_message gw (b_channel_id bug) (b_discord_message_id bug) of
             Some bugMessage \<Rightarrow>
               let reactions = extractReactions bugMessage
               in if hasCheckReaction reactions
                  then updateBugReactions (b_discord_message_id bug) reactions
                         (updateBugStatus (b_id bug) Fixed now db)
                  else let db1 = updateBugReactions (b_discord_message_id bug) reactions db
                       in syncUpdates gw now bug (getBugUpdates db1 (b_id bug)) db1
           | None \<Rightarrow> syncUpdates gw now bug (getBugUpdates db (b_id bug)) db))"

definition syncReactionsOnOpenBugs :: "Gateway \<Rightarrow> nat \<Rightarrow> Bot \<Rightarrow> Bot" where
  "syncReactionsOnOpenBugs gw now self =
     self\<lparr>bot_db := fold (syncBug gw now) (getOpenBugs (bot_db self)) (bot_db self)\<rparr>"

subsection \<open>The scan of a channel that was just added\<close>

record HistoryProgress =
  hp_db :: Database
  hp_bugsFound :: nat
  hp_updatesFound :: nat

text \<open>
  The body of the loop over one batch in \<open>scanChannelHistory\<close>. The first component of
  the result is the exception that ends the scan, if one is thrown (the \<open>try\<close> around the
  whole scan catches it).
\<close>

definition historyMessage ::
  "(jstring \<Rightarrow> jstring) \<Rightarrow> string \<Rightarrow> nat \<Rightarrow> Message \<Rightarrow> HistoryProgress
     \<Rightarrow> db_error option \<times> HistoryProgress" where
  "historyMessage toLowerCase channelName now message p =
     (if m_author_bot message then (None, p)
      else if isNewBugReport (m_content message)
      then let reactions = extractReactions message;
               (bug, db') = addBug (newBug toLowerCase channelName
                                      (if hasCheckReaction reactions then Fixed else Open) message)
                              (hp_db p)
           in (None, p\<lparr>hp_db := db',
                        hp_bugsFound := (if bug \<noteq> None then Suc (hp_bugsFound p)
                                         else hp_bugsFound p)\<rparr>)
      else (case m_reference message of
              None \<Rightarrow> (None, p)
            | Some refMessageId \<Rightarrow>
                (case replyTarget (hp_db p) refMessageId of
                   None \<Rightarrow> (None, p)
                 | Some bug \<Rightarrow>
                     let db1 = (if isCompletionMarker (m_content message) \<and> b_status bug = Open
                                then updateBugStatus (b_id bug) Fixed now (hp_db p)
                                else hp_db p)
                     in (case addBugUpdate (newUpdate (b_id bug) message) db1 of
                           Inl e \<Rightarrow> (Some e, p\<lparr>hp_db := db1\<rparr>)
                         | Inr (update, db2) \<Rightarrow>
                             (None, p\<lparr>hp_db := db2,
                                      hp_updatesFound := (if update \<noteq> None
                                                          then Suc (hp_updatesFound p)
                                                          else hp_updatesFound p)\<rparr>)))))"

fun historyBatch ::
  "(jstring \<Rightarrow> jstring) \<Rightarrow> string \<Rightarrow> nat \<Rightarrow> Message list \<Rightarrow> HistoryProgress
     \<Rightarrow> db_error option \<times> HistoryProgress" where
  "historyBatch toLowerCase channelName now [] p = (None, p)"
| "historyBatch toLowerCase channelName now (message # rest) p =
     (case historyMessage toLowerCase channelName now message p of
        (Some e, p') \<Rightarrow> (Some e, p')
      | (None, p') \<Rightarrow> historyBatch toLowerCase channelName now rest p')"

function historyLoop ::
  "(jstring \<Rightarrow> jstring) \<Rightarrow> Gateway \<Rightarrow> nat \<Rightarrow> nat \<Rightarrow> string \<Rightarrow> nat \<Rightarrow> nat option \<Rightarrow> nat \<Rightarrow> HistoryProgress
     \<Rightarrow> HistoryProgress" where
  "historyLoop toLowerCase gw now channelId channelName maxMessages lastMessageId totalScanned p =
     (if totalScanned < maxMessages
      then let batchSize = min 100 (maxMessages - totalScanned)
           in (case gw_fetch gw channelId
                       \<lparr>fo_limit = batchSize, fo_before = lastMessageId, fo_after = None\<rparr> of
                 None \<Rightarrow> p
               | Some messages \<Rightarrow>
                   if length messages = 0 then p
                   else let sortedMessages = sort_key m_createdAt messages
                        in (case historyBatch toLowerCase channelName now sortedMessages p of
                              (Some e, p') \<Rightarrow> p'
                            | (None, p') \<Rightarrow>
                                if length messages < batchSize then p'
                                else historyLoop toLowerCase gw now channelId channelName maxMessages
                                       (Some (m_id (hd sortedMessages)))
                                       (totalScanned + length messages) p'))
      else p)"
  by pat_completeness auto
termination
  by (relation "measure (\<lambda>(toLowerCase, gw, now, channelId, channelName, maxMessages, lastMessageId,
                            totalScanned, p). maxMessages - totalScanned)") auto

declare historyLoop.simps [simp del]

definition scanChannelHistory ::
  "(jstring \<Rightarrow> jstring) \<Rightarrow> Gateway \<Rightarrow> nat \<Rightarrow> nat \<Rightarrow> nat \<Rightarrow> Bot \<Rightarrow> (nat \<times> nat) \<times> Bot" where
  "scanChannelHistory toLowerCase gw now channelId maxMessages self =
     (case gw_channel_name gw channelId of
        None \<Rightarrow> ((0, 0), self)
      | Some channelName \<Rightarrow>
          let p = historyLoop toLowerCase gw now channelId channelName maxMessages None 0
                    \<lparr>hp_db = bot_db self, hp_bugsFound = 0, hp_updatesFound = 0\<rparr>
          in ((hp_bugsFound p, hp_updatesFound p), self\<lparr>bot_db := hp_db p\<rparr>))"

subsection \<open>The resumable scan\<close>

record ScanProgress =
  sp_db :: Database
  sp_bugsFound :: nat
  sp_updatesFound :: nat
  sp_bugsFixed :: nat
  sp_totalScanned :: nat
  sp_newestMessageId :: "nat option"

text \<open>The body of the loop over one batch in \<open>scanExistingMessages\<close>.\<close>

definition scanMessage ::
  "(jstring \<Rightarrow> jstring) \<Rightarrow> string \<Rightarrow> nat \<Rightarrow> Message \<Rightarrow> ScanProgress
     \<Rightarrow> db_error option \<times> ScanProgress" where
  "scanMessage toLowerCase channelName now message p0 =
     (let p = p0\<lparr>sp_totalScanned := Suc (sp_totalScanned p0),
                 sp_newestMessageId :=
                   (case sp_newestMessageId p0 of
                      None \<Rightarrow> Some (m_id message)
                    | Some newest \<Rightarrow> if newest < m_id message then Some (m_id message)
                                    else Some newest)\<rparr>
      in if m_author_bot message then (None, p)
         else if isNewBugReport (m_content message)
         then let reactions = extractReactions message;
                  (bug, db') = addBug (newBug toLowerCase channelName
                                         (if hasCheckReaction reactions then Fixed else Open) message)
                                 (sp_db p)
              in (None, p\<lparr>sp_db := db',
                           sp_bugsFound := (if bug \<noteq> None then Suc (sp_bugsFound p)
                                            else sp_bugsFound p),
                           sp_bugsFixed := (if bug \<noteq> None \<and> hasCheckReaction reactions
                                            then Suc (sp_bugsFixed p) else sp_bugsFixed p)\<rparr>)
         else if isCompletionMarker (m_content message)
         then (case m_reference message of
                 Some refMessageId \<Rightarrow>
                   (case openBugFor (sp_db p) refMessageId of
                      Some bugId \<Rightarrow>
                        (None, p\<lparr>sp_db := updateBugStatus bugId Fixed now (sp_db p),
                                 sp_bugsFixed := Suc (sp_bugsFixed p)\<rparr>)
                    | None \<Rightarrow> (None, p))
               | None \<Rightarrow> (None, p))
         else (case m_reference message of
                 None \<Rightarrow> (None, p)
               | Some refMessageId \<Rightarrow>
                   (case replyTarget (sp_db p) refMessageId of
                      None \<Rightarrow> (None, p)
                    | Some bug \<Rightarrow>
                        (case addBugUpdate (newUpdate (b_id bug) message) (sp_db p) of
                           Inl e \<Rightarrow> (Some e, p)
                         | Inr (update, db') \<Rightarrow>
                             (None, p\<lparr>sp_db := db',
                                      sp_updatesFound := (if update \<noteq> None
                                                          then Suc (sp_updatesFound p)
                                                          else sp_updatesFound p)\<rparr>)))))"

fun scanBatch ::
  "(jstring \<Rightarrow> jstring) \<Rightarrow> string \<Rightarrow> nat \<Rightarrow> Message list \<Rightarrow> ScanProgress
     \<Rightarrow> db_error option \<times> ScanProgress" where
  "scanBatch toLowerCase channelName now [] p = (None, p)"
| "scanBatch toLowerCase channelName now (message # rest) p =
     (case scanMessage toLowerCase channelName now message p of
        (Some e, p') \<Rightarrow> (Some e, p')
      | (None, p') \<Rightarrow> scanBatch toLowerCase channelName now rest p')"

text \<open>
  The \<open>while (hasMore)\<close> loop. It ends when a page is empty or short; nothing in the
  code bounds the number of full pages, so the model counts them down from \<open>fuel\<close> and
  answers \<open>None\<close> when the loop is still running after that many. \<open>Aborted\<close> is the
  exception (of the gateway or of the store) that the \<open>try\<close> around the channel catches.
\<close>

datatype 'a run = Finished 'a | Aborted 'a

fun scanLoop ::
  "(jstring \<Rightarrow> jstring) \<Rightarrow> nat \<Rightarrow> Gateway \<Rightarrow> nat \<Rightarrow> nat \<Rightarrow> string \<Rightarrow> int option \<Rightarrow> ScanProgress
     \<Rightarrow> ScanProgress run option" where
  "scanLoop toLowerCase 0 gw now channelId channelName afterId p = None"
| "scanLoop toLowerCase (Suc fuel) gw now channelId channelName afterId p =
     (case gw_fetch gw channelId \<lparr>fo_limit = 100, fo_before = None, fo_after = afterId\<rparr> of
        None \<Rightarrow> Some (Aborted p)
      | Some messages \<Rightarrow>
          if length messages = 0 then Some (Finished p)
          else let sortedMessages = sort_key m_createdAt messages
               in (case scanBatch toLowerCase channelName now sortedMessages p of
                     (Some e, p') \<Rightarrow> Some (Aborted p')
                   | (None, p') \<Rightarrow>
                       if length messages < 100 then Some (Finished p')
                       else scanLoop toLowerCase fuel gw now channelId channelName
                              (Some (int (m_id (last sortedMessages)))) p'))"

text \<open>The body of the loop over the channels: one channel, start to watermark.\<close>

definition scanChannel ::
  "(jstring \<Rightarrow> jstring) \<Rightarrow> nat \<Rightarrow> Gateway \<Rightarrow> nat \<Rightarrow> nat option \<Rightarrow> bool \<Rightarrow> nat \<Rightarrow> Database
     \<Rightarrow> Database option" where
  "scanChannel toLowerCase fuel gw now sinceDate resumeFromSaved channelId db =
     (case gw_channel_name gw channelId of
        None \<Rightarrow> Some db
      | Some channelName \<Rightarrow>
          let afterId = (if resumeFromSaved
                         then (case getScanState db channelId of
                                 Some (lastMessageId, lastScanAt) \<Rightarrow> Some (int lastMessageId)
                               | None \<Rightarrow> None)
                         else None);
              afterId = (case afterId of
                           Some a \<Rightarrow> Some a
                         | None \<Rightarrow> (case sinceDate of
                                      Some date \<Rightarrow> Some (dateToSnowflake date)
                                    | None \<Rightarrow> None))
          in (case scanLoop toLowerCase fuel gw now channelId channelName afterId
                     \<lparr>sp_db = db, sp_bugsFound = 0, sp_updatesFound = 0, sp_bugsFixed = 0,
                      sp_totalScanned = 0, sp_newestMessageId = None\<rparr> of
                None \<Rightarrow> None
              | Some (Aborted p) \<Rightarrow> Some (sp_db p)
              | Some (Finished p) \<Rightarrow>
                  (case sp_newestMessageId p of
                     Some newestMessageId \<Rightarrow>
                       Some (saveScanState channelId newestMessageId now (sp_db p))
                   | None \<Rightarrow> Some (sp_db p))))"

fun scanChannels ::
  "(jstring \<Rightarrow> jstring) \<Rightarrow> nat \<Rightarrow> Gateway \<Rightarrow> nat \<Rightarrow> nat option \<Rightarrow> bool \<Rightarrow> nat list \<Rightarrow> Database
     \<Rightarrow> Database option" where
  "scanChannels toLowerCase fuel gw now sinceDate resumeFromSaved [] db = Some db"
| "scanChannels toLowerCase fuel gw now sinceDate resumeFromSaved (channelId # rest) db =
     (case scanChannel toLowerCase fuel gw now sinceDate resumeFromSaved channelId db of
        None \<Rightarrow> None
      | Some db' \<Rightarrow> scanChannels toLowerCase fuel gw now sinceDate resumeFromSaved rest db')"

definition scanExistingMessages ::
  "(jstring \<Rightarrow> jstring) \<Rightarrow> nat \<Rightarrow> Gateway \<Rightarrow> nat \<Rightarrow> nat option \<Rightarrow> bool \<Rightarrow> Bot \<Rightarrow> Bot option" where
  "scanExistingMessages toLowerCase fuel gw now sinceDate resumeFromSaved self =
     (case scanChannels toLowerCase fuel gw now sinceDate resumeFromSaved
             (getMonitoredChannelIds self) (bot_db self) of
        None \<Rightarrow> None
      | Some db' \<Rightarrow> Some (self\<lparr>bot_db := db'\<rparr>))"

text \<open>\<open>saveCurrentPosition\<close>: the body of its loop, and the loop.\<close>

definition savePosition :: "Gateway \<Rightarrow> nat \<Rightarrow> nat \<Rightarrow> Database \<Rightarrow> Database" where
  "savePosition gw now channelId db =
     (case gw_channel_name gw channelId of
        None \<Rightarrow> db
      | Some name \<Rightarrow>
          (case gw_fetch gw channelId \<lparr>fo_limit = 1, fo_before = None, fo_after = None\<rparr> of
             None \<Rightarrow> db
           | Some messages \<Rightarrow>
               (case messages of
                  [] \<Rightarrow> db
                | lastMessage # others \<Rightarrow> saveScanState channelId (m_id lastMessage) now db)))"

definition saveCurrentPosition :: "Gateway \<Rightarrow> nat \<Rightarrow> Bot \<Rightarrow> Bot" where
  "saveCurrentPosition gw now self =
     self\<lparr>bot_db := fold (savePosition gw now) (getMonitoredChannelIds self) (bot_db self)\<rparr>"

section \<open>Stores and runs\<close>

text \<open>
  What the schema and the handlers maintain: keys are positive, distinct and at most the
  counter of their table; message ids are unique within each table; every update
  belongs to a bug of the store.
\<close>

definition db_ok :: "Database \<Rightarrow> bool" where
  "db_ok db =
     (distinct (map b_id (bugs db))
      \<and> distinct (map b_discord_message_id (bugs db))
      \<and> list_all (\<lambda>b. 0 < b_id b \<and> b_id b \<le> bugs_seq db) (bugs db)
      \<and> distinct (map u_id (bug_updates db))
      \<and> distinct (map u_discord_message_id (bug_updates db))
      \<and> list_all (\<lambda>u. 0 < u_id u \<and> u_id u \<le> bug_updates_seq db
                        \<and> u_bug_id u \<in> set (map b_id (bugs db))) (bug_updates db))"

text \<open>Messages handled one after the other, each at its own time, as the events arrive.\<close>

fun handleMessages ::
  "(jstring \<Rightarrow> jstring) \<Rightarrow> Gateway \<Rightarrow> (nat \<times> Message) list \<Rightarrow> Bot \<Rightarrow> db_error + Bot" where
  "handleMessages toLowerCase gw [] self = Inr self"
| "handleMessages toLowerCase gw (event # rest) self =
     (case handleMessage toLowerCase gw (fst event) (snd event) self of
        Inl e \<Rightarrow> Inl e
      | Inr self' \<Rightarrow> handleMessages toLowerCase gw rest self')"

text \<open>A chain of replies: the first refers to the given message, each next one to its predecessor.\<close>

fun replyChain :: "nat \<Rightarrow> Message list \<Rightarrow> bool" where
  "replyChain refMessageId [] = True"
| "replyChain refMessageId (message # rest) =
     (m_reference message = Some refMessageId \<and> replyChain (m_id message) rest)"

text \<open>
  No row of \<open>bugs\<close> is lost between two stores, and a row that is fixed in the first is
  fixed in the second.
\<close>

definition staysFixed :: "Database \<Rightarrow> Database \<Rightarrow> bool" where
  "staysFixed db db' =
     (length (bugs db) \<le> length (bugs db')
      \<and> list_all2 (\<lambda>b b'. b_id b' = b_id b \<and> (b_status b = Fixed \<longrightarrow> b_status b' = Fixed))
           (bugs db) (take (length (bugs db)) (bugs db')))"

text \<open>
  The cursor at which \<open>scanExistingMessages\<close> starts a channel, as \<open>scanChannel\<close>
  computes it: the stored watermark when the scan resumes and one is stored, else the
  start date as a snowflake, else none.
\<close>

definition scanStart :: "nat option \<Rightarrow> bool \<Rightarrow> nat \<Rightarrow> Database \<Rightarrow> int option" where
  "scanStart sinceDate resumeFromSaved channelId db =
     (let afterId = (if resumeFromSaved
                     then (case getScanState db channelId of
                             Some (lastMessageId, lastScanAt) \<Rightarrow> Some (int lastMessageId)
                           | None \<Rightarrow> None)
                     else None)
      in case afterId of
           Some a \<Rightarrow> Some a
         | None \<Rightarrow> (case sinceDate of
                      Some date \<Rightarrow> Some (dateToSnowflake date)
                    | None \<Rightarrow> None))"

text \<open>The progress with which the scan of a channel starts.\<close>

definition scanBegin :: "Database \<Rightarrow> ScanProgress" where
  "scanBegin db = \<lparr>sp_db = db, sp_bugsFound = 0, sp_updatesFound = 0, sp_bugsFixed = 0,
     sp_totalScanned = 0, sp_newestMessageId = None\<rparr>"

text \<open>
  The pages that the loop of \<open>scanLoop\<close> reads when nothing aborts it: the page of the
  cursor, and after a full page the pages from the id of its latest message on.
\<close>

fun scanPages :: "nat \<Rightarrow> Gateway \<Rightarrow> nat \<Rightarrow> int option \<Rightarrow> Message list list" where
  "scanPages 0 gw channelId afterId = []"
| "scanPages (Suc fuel) gw channelId afterId =
     (case gw_fetch gw channelId \<lparr>fo_limit = 100, fo_before = None, fo_after = afterId\<rparr> of
        None \<Rightarrow> []
      | Some messages \<Rightarrow>
          if length messages = 0 then []
          else if length messages < 100 then [messages]
          else messages # scanPages fuel gw channelId
                            (Some (int (m_id (last (sort_key m_createdAt messages))))))"

section \<open>Sample data\<close>

text \<open>
  A gateway that knows the channel 7 and no message, a message of that channel from a
  human author, and a bot that monitors the channel on an empty store.
\<close>

definition demoGateway :: Gateway where
  "demoGateway = \<lparr>gw_channel_name = (\<lambda>c. if c = 7 then Some ''bugs'' else None),
     gw_fetch = (\<lambda>c opts. None), gw_fetch_message = (\<lambda>c i. None)\<rparr>"

definition demoMessage :: "nat \<Rightarrow> jstring \<Rightarrow> nat option \<Rightarrow> Message" where
  "demoMessage i content ref = \<lparr>m_id = i, m_channelId = 7, m_guildId = Some 1, m_author_id = 5,
     m_author_username = ''ann'', m_author_bot = False, m_content = content, m_reference = ref,
     m_createdAt = i, m_reactions = []\<rparr>"

definition demoBot :: "MessageAnalyzer option \<Rightarrow> Database \<Rightarrow> Bot" where
  "demoBot a db = \<lparr>bot_db = db, bot_channelIds = None,
     bot_analyzer = a, bot_recentMessages = Map.empty, bot_requests = 0\<rparr>"

text \<open>A bug row and an update row as the bot builds them from a message.\<close>

definition demoBugRow :: "nat \<Rightarrow> BugStatus \<Rightarrow> nat \<Rightarrow> jstring \<Rightarrow> Bug" where
  "demoBugRow i status messageId content =
     (newBug asciiLowerCase ''bugs'' status (demoMessage messageId content None))\<lparr>b_id := i\<rparr>"

definition demoUpdateRow :: "nat \<Rightarrow> nat \<Rightarrow> nat \<Rightarrow> jstring \<Rightarrow> nat option \<Rightarrow> BugUpdate" where
  "demoUpdateRow i bugId messageId content ref =
     (newUpdate bugId (demoMessage messageId content ref))\<lparr>u_id := i\<rparr>"

definition demoStore :: "Bug list \<Rightarrow> BugUpdate list \<Rightarrow> Database" where
  "demoStore bs us = \<lparr>bugs = bs, bugs_seq = length bs, bug_updates = us,
     bug_updates_seq = length us, scan_state = Map.empty, monitored_channels = [7]\<rparr>"

text \<open>A store with one open bug (message 100) and one reply to it (message 101).\<close>

definition sampleStore :: Database where
  "sampleStore = demoStore [demoBugRow 1 Open 100 (PLAY @ str '' login broken'')]
                           [demoUpdateRow 1 1 101 (str ''me too'') (Some 100)]"

definition sampleScan :: "Database \<Rightarrow> ScanProgress" where
  "sampleScan db = \<lparr>sp_db = db, sp_bugsFound = 0, sp_updatesFound = 0, sp_bugsFixed = 0,
     sp_totalScanned = 0, sp_newestMessageId = None\<rparr>"

definition sampleHistory :: "Database \<Rightarrow> HistoryProgress" where
  "sampleHistory db = \<lparr>hp_db = db, hp_bugsFound = 0, hp_updatesFound = 0\<rparr>"

text \<open>
  A bug report, a reply to it, and the same reply once more after its author has edited it
  into a report of its own (\<open>messageUpdate\<close> runs \<open>handleMessage\<close> again).
\<close>

definition editedReplyEvents :: "(nat \<times> Message) list" where
  "editedReplyEvents =
     [(1000, demoMessage 100 (PLAY @ str '' login broken'') None),
      (1001, demoMessage 101 (str ''me too'') (Some 100)),
      (1002, demoMessage 101 (PLAY @ str '' me too'') (Some 100))]"

text \<open>Three replies, each to the one before, the first to the bug of the sample store.\<close>

definition chainEvents :: "(nat \<times> Message) list" where
  "chainEvents =
     [(1002, demoMessage 102 (str ''me too'') (Some 100)),
      (1003, demoMessage 103 (str ''me too'') (Some 102)),
      (1004, demoMessage 104 (str ''me too'') (Some 103))]"

text \<open>An analyzer whose service is down, and one that answers every request with bug 1.\<close>

definition failingAnalyzer :: MessageAnalyzer where
  "failingAnalyzer = \<lparr>completion_reply = (\<lambda>t bs. Failed), context_reply = (\<lambda>t a bs ms. Failed)\<rparr>"

definition bugOneAnalyzer :: MessageAnalyzer where
  "bugOneAnalyzer =
     \<lparr>completion_reply = (\<lambda>t bs. Json \<lparr>pm_bugId = Some 1, pm_confidence = Some High,
                                         pm_reasoning = None\<rparr>),
      context_reply = (\<lambda>t a bs ms. Json \<lparr>pa_shouldAdd = True, pa_bugId = Some 1,
                                           pa_confidence = Some High, pa_reasoning = None\<rparr>)\<rparr>"

text \<open>
  Two open bugs; the text "login page" occurs in the first one only. In the second
  store the other bug was updated later and shares both words of that text.
\<close>

definition twoOpenBugs :: Database where
  "twoOpenBugs = demoStore [demoBugRow 1 Open 100 (PLAY @ str '' login page crashes''),
                            demoBugRow 2 Open 200 (PLAY @ str '' dark mode please'')] []"

definition twoSimilarBugs :: Database where
  "twoSimilarBugs = demoStore [demoBugRow 1 Open 100 (PLAY @ str '' login page crashes''),
                               demoBugRow 2 Open 200 (PLAY @ str '' page login'')] []"

text \<open>
  Two open bugs that both hold the text "login page" and were last updated in the same
  millisecond.
\<close>

definition twoTiedBugs :: Database where
  "twoTiedBugs =
     demoStore [(demoBugRow 1 Open 100 (PLAY @ str '' login page crashes''))\<lparr>b_updated_at := 250\<rparr>,
                (demoBugRow 2 Open 200 (PLAY @ str '' login page is slow''))\<lparr>b_updated_at := 250\<rparr>] []"

text \<open>A fixed bug and two open ones that have nothing to do with the text "done".\<close>

definition oneFixedTwoOpen :: Database where
  "oneFixedTwoOpen = demoStore [demoBugRow 1 Fixed 100 (PLAY @ str '' login page crashes''),
                                demoBugRow 2 Open 200 (PLAY @ str '' dark mode please''),
                                demoBugRow 3 Open 300 (PLAY @ str '' export to csv'')] []"

text \<open>
  Six open bugs of channel 7; the bugs 1 and 2 were last updated in the same
  millisecond, the others later, each after the one before.
\<close>

definition tiedBugs :: Database where
  "tiedBugs = demoStore [(demoBugRow 1 Open 100 (PLAY @ str '' login broken''))\<lparr>b_updated_at := 150\<rparr>,
                         (demoBugRow 2 Open 200 (PLAY @ str '' page login''))\<lparr>b_updated_at := 150\<rparr>,
                         demoBugRow 3 Open 300 (PLAY @ str '' export to csv''),
                         demoBugRow 4 Open 400 (PLAY @ str '' dark mode please''),
                         demoBugRow 5 Open 500 (PLAY @ str '' login page crashes''),
                         demoBugRow 6 Open 600 (PLAY @ str '' me too'')] []"

text \<open>A new report that already carries the check mark reaction of one user.\<close>

definition reactedReport :: Message where
  "reactedReport = (demoMessage 600 (PLAY @ str '' export to csv'') None)
     \<lparr>m_reactions := [(CHECK, 1, Some [''bob''])]\<rparr>"

text \<open>
  A page of a channel that holds the given messages, latest first, as the gateway cuts
  it: the messages after the cursor \<open>after\<close> and before the cursor \<open>before\<close>; of these
  the earliest \<open>limit\<close> when \<open>after\<close> is given, else the latest \<open>limit\<close>.
\<close>

definition channelPage :: "Message list \<Rightarrow> FetchOptions \<Rightarrow> Message list" where
  "channelPage messages opts =
     (let inRange = filter (\<lambda>m. (case fo_after opts of None \<Rightarrow> True | Some a \<Rightarrow> a < int (m_id m))
                               \<and> (case fo_before opts of None \<Rightarrow> True | Some b \<Rightarrow> m_id m < b))
                      messages
      in case fo_after opts of
           None \<Rightarrow> take (fo_limit opts) inRange
         | Some a \<Rightarrow> rev (take (fo_limit opts) (rev inRange)))"

text \<open>
  Channel 7 with the three plain messages 300, 499 and 500, and the same channel after
  the message 500 has been deleted.
\<close>

definition scanGateway :: Gateway where
  "scanGateway = \<lparr>gw_channel_name = (\<lambda>c. if c = 7 then Some ''bugs'' else None),
     gw_fetch = (\<lambda>c opts. if c = 7
                            then Some (channelPage [demoMessage 500 (str ''me too'') None,
                                                    demoMessage 499 (str ''any news'') None,
                                                    demoMessage 300 (str ''me too'') None] opts)
                            else None),
     gw_fetch_message = (\<lambda>c i. None)\<rparr>"

definition shutdownGateway :: Gateway where
  "shutdownGateway = \<lparr>gw_channel_name = (\<lambda>c. if c = 7 then Some ''bugs'' else None),
     gw_fetch = (\<lambda>c opts. if c = 7
                            then Some (channelPage [demoMessage 499 (str ''any news'') None,
                                                    demoMessage 300 (str ''me too'') None] opts)
                            else None),
     gw_fetch_message = (\<lambda>c i. None)\<rparr>"

text \<open>An empty store whose watermark for channel 7 is the message 400, saved at time 1.\<close>

definition resumedStore :: Database where
  "resumedStore = (demoStore [] [])\<lparr>scan_state := [7 \<mapsto> (400, 1)]\<rparr>"

section \<open>Inserting twice\<close>

lemma addBug_duplicate:
  "b_discord_message_id bug \<in> set (map b_discord_message_id (bugs db))
     \<Longrightarrow> addBug bug db = (None, db)"
  by (simp add: addBug_def)

lemma addBugUpdate_duplicate:
  "u_discord_message_id update \<in> set (map u_discord_message_id (bug_updates db))
     \<Longrightarrow> addBugUpdate update db = Inr (None, db)"
  by (simp add: addBugUpdate_def)

lemma newBug_message_id [simp]: "b_discord_message_id (newBug toLowerCase cn st m) = m_id m"
  by (simp add: newBug_def)

lemma newBug_status [simp]: "b_status (newBug toLowerCase cn st m) = st"
  by (simp add: newBug_def)

lemma newUpdate_fields [simp]:
  "u_discord_message_id (newUpdate i m) = m_id m"
  "u_bug_id (newUpdate i m) = i"
  "u_created_at (newUpdate i m) = m_createdAt m"
  by (simp_all add: newUpdate_def)

lemma addToRecentMessages_fields [simp]:
  "bot_db (addToRecentMessages ch m i self) = bot_db self"
  "bot_requests (addToRecentMessages ch m i self) = bot_requests self"
  "bot_analyzer (addToRecentMessages ch m i self) = bot_analyzer self"
  "bot_channelIds (addToRecentMessages ch m i self) = bot_channelIds self"
  by (simp_all add: addToRecentMessages_def Let_def)

lemma createBug_duplicate:
  "m_id m \<in> set (map b_discord_message_id (bugs (bot_db self))) \<Longrightarrow> createBug toLowerCase gw m self = self"
  by (simp add: createBug_def addBug_duplicate)

lemma handleReply_duplicate:
  assumes "m_id m \<in> set (map u_discord_message_id (bug_updates (bot_db self)))"
  shows "\<exists>h. handleReply m self = Inr (h, self)"
  using assms
  by (auto simp: handleReply_def addBugUpdate_duplicate split: option.splits)

lemma handleContextMessage_duplicate:
  assumes "m_id m \<in> set (map u_discord_message_id (bug_updates (bot_db self)))"
  shows "\<exists>bot'. handleContextMessage m self = Inr bot' \<and> bot_db bot' = bot_db self"
  using assms
  by (auto simp: handleContextMessage_def Let_def addBugUpdate_duplicate
           split: option.splits prod.splits)

lemma handleMessage_duplicate_bug:
  assumes "isNewBugReport (m_content m)"
    and "m_id m \<in> set (map b_discord_message_id (bugs (bot_db self)))"
  shows "\<exists>bot'. handleMessage toLowerCase gw now m self = Inr bot' \<and> bot_db bot' = bot_db self"
  using assms by (simp add: handleMessage_def createBug_duplicate)

lemma handleMessage_duplicate_update:
  assumes "\<not> isNewBugReport (m_content m)" "\<not> isCompletionMarker (m_content m)"
    and dup: "m_id m \<in> set (map u_discord_message_id (bug_updates (bot_db self)))"
  shows "\<exists>bot'. handleMessage toLowerCase gw now m self = Inr bot' \<and> bot_db bot' = bot_db self"
proof -
  from handleReply_duplicate [OF dup] obtain h where h: "handleReply m self = Inr (h, self)" ..
  from handleContextMessage_duplicate [OF dup]
  obtain c where c: "handleContextMessage m self = Inr c" "bot_db c = bot_db self" by blast
  show ?thesis
    using assms(1,2) h c by (simp add: handleMessage_def split: option.splits)
qed

lemma scanMessage_duplicate:
  assumes "(isNewBugReport (m_content m)
             \<and> m_id m \<in> set (map b_discord_message_id (bugs (sp_db p))))
         \<or> (\<not> isNewBugReport (m_content m) \<and> \<not> isCompletionMarker (m_content m)
             \<and> m_id m \<in> set (map u_discord_message_id (bug_updates (sp_db p))))"
  shows "fst (scanMessage toLowerCase cn now m p) = None \<and> sp_db (snd (scanMessage toLowerCase cn now m p)) = sp_db p"
  using assms
  by (auto simp: scanMessage_def Let_def addBug_duplicate addBugUpdate_duplicate
           split: option.splits)

lemma historyMessage_duplicate:
  assumes "(isNewBugReport (m_content m)
             \<and> m_id m \<in> set (map b_discord_message_id (bugs (hp_db p))))
         \<or> (\<not> isNewBugReport (m_content m) \<and> \<not> isCompletionMarker (m_content m)
             \<and> m_id m \<in> set (map u_discord_message_id (bug_updates (hp_db p))))"
  shows "fst (historyMessage toLowerCase cn now m p) = None \<and> hp_db (snd (historyMessage toLowerCase cn now m p)) = hp_db p"
  using assms
  by (auto simp: historyMessage_def Let_def addBug_duplicate addBugUpdate_duplicate
           split: option.splits)

lemma sample_new_issue: "isNewBugReport (PLAY @ str '' login broken'')"
  by (simp add: isNewBugReport_def startsWith_def trim_def PLAY_def str_def isWhiteSpace_def)

lemma sample_plain:
  "\<not> isNewBugReport (str ''me too'')" "\<not> isCompletionMarker (str ''me too'')"
  by (simp_all add: isNewBugReport_def isCompletionMarker_def startsWith_def trim_def
        PLAY_def CHECK_def str_def isWhiteSpace_def)

text \<open>
  Claim C1. Inserting a Bug or a BugUpdate whose Discord message id is already in its
  table returns \<open>null\<close> and leaves the store as it was, the \<open>updated_at\<close> of the owning
  bug included; it is not an error. The same holds one level up, live and in both
  scans: handling a new-issue message whose id is already a bug, or a plain message
  whose id is already an update, leaves the store as it was and throws nothing.
\<close>

theorem duplicate_insert_is_noop:
  "(b_discord_message_id bug \<in> set (map b_discord_message_id (bugs db))
      \<longrightarrow> addBug bug db = (None, db))
   \<and> (u_discord_message_id update \<in> set (map u_discord_message_id (bug_updates db))
      \<longrightarrow> addBugUpdate update db = Inr (None, db))
   \<and> ((isNewBugReport (m_content m) \<and> m_id m \<in> set (map b_discord_message_id (bugs db)))
       \<or> (\<not> isNewBugReport (m_content m) \<and> \<not> isCompletionMarker (m_content m)
           \<and> m_id m \<in> set (map u_discord_message_id (bug_updates db)))
      \<longrightarrow> (bot_db self = db
            \<longrightarrow> (\<exists>bot'. handleMessage toLowerCase gw now m self = Inr bot' \<and> bot_db bot' = db))
        \<and> (sp_db p = db
            \<longrightarrow> fst (scanMessage toLowerCase cn now m p) = None \<and> sp_db (snd (scanMessage toLowerCase cn now m p)) = db)
        \<and> (hp_db h = db
            \<longrightarrow> fst (historyMessage toLowerCase cn now m h) = None
                \<and> hp_db (snd (historyMessage toLowerCase cn now m h)) = db))"
proof (intro conjI impI)
  assume "b_discord_message_id bug \<in> set (map b_discord_message_id (bugs db))"
  then show "addBug bug db = (None, db)" by (rule addBug_duplicate)
next
  assume "u_discord_message_id update \<in> set (map u_discord_message_id (bug_updates db))"
  then show "addBugUpdate update db = Inr (None, db)" by (rule addBugUpdate_duplicate)
next
  assume d: "(isNewBugReport (m_content m) \<and> m_id m \<in> set (map b_discord_message_id (bugs db)))
       \<or> (\<not> isNewBugReport (m_content m) \<and> \<not> isCompletionMarker (m_content m)
           \<and> m_id m \<in> set (map u_discord_message_id (bug_updates db)))"
    and s: "bot_db self = db"
  from d s handleMessage_duplicate_bug [of m self toLowerCase gw now]
    handleMessage_duplicate_update [of m self toLowerCase gw now]
  show "\<exists>bot'. handleMessage toLowerCase gw now m self = Inr bot' \<and> bot_db bot' = db" by auto
next
  assume d: "(isNewBugReport (m_content m) \<and> m_id m \<in> set (map b_discord_message_id (bugs db)))
       \<or> (\<not> isNewBugReport (m_content m) \<and> \<not> isCompletionMarker (m_content m)
           \<and> m_id m \<in> set (map u_discord_message_id (bug_updates db)))"
    and s: "sp_db p = db"
  from d s scanMessage_duplicate [of m p toLowerCase cn now]
  show "fst (scanMessage toLowerCase cn now m p) = None" "sp_db (snd (scanMessage toLowerCase cn now m p)) = db" by auto
next
  assume d: "(isNewBugReport (m_content m) \<and> m_id m \<in> set (map b_discord_message_id (bugs db)))
       \<or> (\<not> isNewBugReport (m_content m) \<and> \<not> isCompletionMarker (m_content m)
           \<and> m_id m \<in> set (map u_discord_message_id (bug_updates db)))"
    and s: "hp_db h = db"
  from d s historyMessage_duplicate [of m h toLowerCase cn now]
  show "fst (historyMessage toLowerCase cn now m h) = None" "hp_db (snd (historyMessage toLowerCase cn now m h)) = db" by auto
qed

theorem duplicate_insert_is_noop_witness:
  "addBug (newBug asciiLowerCase ''bugs'' Open (demoMessage 100 (PLAY @ str '' login broken'') None)) sampleStore
     = (None, sampleStore)
   \<and> addBugUpdate (newUpdate 1 (demoMessage 101 (str ''me too'') (Some 100))) sampleStore
     = Inr (None, sampleStore)
   \<and> (\<exists>bot'. handleMessage asciiLowerCase demoGateway 5000 (demoMessage 100 (PLAY @ str '' login broken'') None)
                (demoBot None sampleStore) = Inr bot' \<and> bot_db bot' = sampleStore)
   \<and> (\<exists>bot'. handleMessage asciiLowerCase demoGateway 5000 (demoMessage 101 (str ''me too'') (Some 100))
                (demoBot None sampleStore) = Inr bot' \<and> bot_db bot' = sampleStore)
   \<and> sp_db (snd (scanMessage asciiLowerCase ''bugs'' 5000 (demoMessage 100 (PLAY @ str '' login broken'') None)
               (sampleScan sampleStore))) = sampleStore
   \<and> hp_db (snd (historyMessage asciiLowerCase ''bugs'' 5000 (demoMessage 101 (str ''me too'') (Some 100))
               (sampleHistory sampleStore))) = sampleStore"
  using duplicate_insert_is_noop [of
      "newBug asciiLowerCase ''bugs'' Open (demoMessage 100 (PLAY @ str '' login broken'') None)" sampleStore
      "newUpdate 1 (demoMessage 101 (str ''me too'') (Some 100))"
      "demoMessage 100 (PLAY @ str '' login broken'') None" "demoBot None sampleStore"
      asciiLowerCase demoGateway 5000 "sampleScan sampleStore" "''bugs''" "sampleHistory sampleStore"]
    duplicate_insert_is_noop [of
      "newBug asciiLowerCase ''bugs'' Open (demoMessage 100 (PLAY @ str '' login broken'') None)" sampleStore
      "newUpdate 1 (demoMessage 101 (str ''me too'') (Some 100))"
      "demoMessage 101 (str ''me too'') (Some 100)" "demoBot None sampleStore"
      asciiLowerCase demoGateway 5000 "sampleScan sampleStore" "''bugs''" "sampleHistory sampleStore"]
    sample_new_issue sample_plain
  by (simp add: sampleStore_def demoStore_def demoBugRow_def demoUpdateRow_def demoMessage_def
        demoBot_def sampleScan_def sampleHistory_def)

section \<open>Lookups\<close>

lemma find_key_distinct:
  "distinct (map f xs) \<Longrightarrow> x \<in> set xs \<Longrightarrow> find (\<lambda>y. f y = f x) xs = Some x"
proof (induction xs)
  case Nil
  then show ?case by simp
next
  case (Cons a xs)
  then show ?case by (auto simp: image_iff)
qed

lemma find_key_Some: "find (\<lambda>y. f y = k) xs = Some x \<Longrightarrow> x \<in> set xs \<and> f x = k"
  by (induction xs) (auto split: if_splits)

lemma find_key_None: "(find (\<lambda>y. f y = k) xs = None) = (k \<notin> set (map f xs))"
  by (induction xs) auto

lemma getBugById_Some: "getBugById db i = Some b \<Longrightarrow> b \<in> set (bugs db) \<and> b_id b = i"
  unfolding getBugById_def by (rule find_key_Some)

lemma getBugById_None: "(getBugById db i = None) = (i \<notin> set (map b_id (bugs db)))"
  unfolding getBugById_def by (rule find_key_None)

lemma getBugById_member:
  "distinct (map b_id (bugs db)) \<Longrightarrow> b \<in> set (bugs db) \<Longrightarrow> getBugById db (b_id b) = Some b"
  unfolding getBugById_def by (rule find_key_distinct)

lemma getBugByMessageId_Some:
  "getBugByMessageId db r = Some b \<Longrightarrow> b \<in> set (bugs db) \<and> b_discord_message_id b = r"
  unfolding getBugByMessageId_def by (rule find_key_Some)

lemma getBugByMessageId_None:
  "(getBugByMessageId db r = None) = (r \<notin> set (map b_discord_message_id (bugs db)))"
  unfolding getBugByMessageId_def by (rule find_key_None)

lemma getBugIdFromUpdateMessage_Some:
  "getBugIdFromUpdateMessage db r = Some i
     \<Longrightarrow> i \<noteq> 0 \<and> (\<exists>u\<in>set (bug_updates db). u_discord_message_id u = r \<and> u_bug_id u = i)"
  unfolding getBugIdFromUpdateMessage_def
  by (auto split: option.splits if_splits dest: find_key_Some)

lemma getBugIdFromUpdateMessage_member:
  assumes "distinct (map u_discord_message_id (bug_updates db))" "u \<in> set (bug_updates db)"
    "u_bug_id u \<noteq> 0"
  shows "getBugIdFromUpdateMessage db (u_discord_message_id u) = Some (u_bug_id u)"
  using assms find_key_distinct [of u_discord_message_id "bug_updates db" u]
  by (simp add: getBugIdFromUpdateMessage_def)

lemma replyTarget_Some: "replyTarget db r = Some b \<Longrightarrow> b \<in> set (bugs db)"
  by (auto simp: replyTarget_def split: option.splits
           dest: getBugByMessageId_Some getBugById_Some)

section \<open>The handlers keep the store well-formed\<close>

lemma db_ok_empty: "db_ok emptyDatabase"
  by (simp add: db_ok_def emptyDatabase_def)

lemma db_ok_bug_id_pos: "db_ok db \<Longrightarrow> b \<in> set (bugs db) \<Longrightarrow> 0 < b_id b"
  by (auto simp: db_ok_def list_all_iff)

lemma db_ok_update_bug: "db_ok db \<Longrightarrow> u \<in> set (bug_updates db) \<Longrightarrow> u_bug_id u \<in> set (map b_id (bugs db)) \<and> u_bug_id u \<noteq> 0"
  by (auto simp: db_ok_def list_all_iff)

lemma updateBugStatus_fields [simp]:
  "map b_id (bugs (updateBugStatus i st now db)) = map b_id (bugs db)"
  "map b_discord_message_id (bugs (updateBugStatus i st now db)) = map b_discord_message_id (bugs db)"
  "bugs_seq (updateBugStatus i st now db) = bugs_seq db"
  "bug_updates (updateBugStatus i st now db) = bug_updates db"
  "bug_updates_seq (updateBugStatus i st now db) = bug_updates_seq db"
  "scan_state (updateBugStatus i st now db) = scan_state db"
  "monitored_channels (updateBugStatus i st now db) = monitored_channels db"
  by (simp_all add: updateBugStatus_def)

lemma db_ok_alt:
  "db_ok db =
     (distinct (map b_id (bugs db))
      \<and> distinct (map b_discord_message_id (bugs db))
      \<and> list_all (\<lambda>i. 0 < i \<and> i \<le> bugs_seq db) (map b_id (bugs db))
      \<and> distinct (map u_id (bug_updates db))
      \<and> distinct (map u_discord_message_id (bug_updates db))
      \<and> list_all (\<lambda>i. 0 < i \<and> i \<le> bug_updates_seq db) (map u_id (bug_updates db))
      \<and> list_all (\<lambda>i. i \<in> set (map b_id (bugs db))) (map u_bug_id (bug_updates db)))"
  unfolding db_ok_def by (auto simp: list_all_iff)

lemma db_ok_ids_only:
  assumes "db_ok db" "map b_id (bugs db') = map b_id (bugs db)"
    "map b_discord_message_id (bugs db') = map b_discord_message_id (bugs db)"
    "bugs_seq db' = bugs_seq db" "bug_updates_seq db' = bug_updates_seq db"
    "map u_id (bug_updates db') = map u_id (bug_updates db)"
    "map u_discord_message_id (bug_updates db') = map u_discord_message_id (bug_updates db)"
    "map u_bug_id (bug_updates db') = map u_bug_id (bug_updates db)"
  shows "db_ok db'"
  using assms(1) unfolding db_ok_alt assms(2-) .

lemma touched_bug_fields [simp]:
  "b_id (if c then b\<lparr>b_updated_at := t\<rparr> else b) = b_id b"
  "b_discord_message_id (if c then b\<lparr>b_updated_at := t\<rparr> else b) = b_discord_message_id b"
  "b_status (if c then b\<lparr>b_updated_at := t\<rparr> else b) = b_status b"
  by simp_all

lemma db_ok_updateBugStatus: "db_ok db \<Longrightarrow> db_ok (updateBugStatus i st now db)"
  by (rule db_ok_ids_only) simp_all

lemma db_ok_updateBugReactions: "db_ok db \<Longrightarrow> db_ok (updateBugReactions r rs db)"
  by (rule db_ok_ids_only) (simp_all add: updateBugReactions_def o_def if_distrib cong: if_cong)

lemma db_ok_updateUpdateReactions: "db_ok db \<Longrightarrow> db_ok (updateUpdateReactions r rs db)"
  by (rule db_ok_ids_only) (simp_all add: updateUpdateReactions_def o_def if_distrib cong: if_cong)

lemma db_ok_saveScanState: "db_ok db \<Longrightarrow> db_ok (saveScanState c i now db)"
  by (rule db_ok_ids_only) (simp_all add: saveScanState_def)

lemma addBug_fresh:
  assumes "b_discord_message_id bug \<notin> set (map b_discord_message_id (bugs db))"
  shows "snd (addBug bug db) = db\<lparr>bugs := bugs db @ [bug\<lparr>b_id := Suc (bugs_seq db)\<rparr>],
                                   bugs_seq := Suc (bugs_seq db)\<rparr>"
  using assms by (simp add: addBug_def Let_def)

lemma db_ok_addBug: 
  assumes "db_ok db" shows "db_ok (snd (addBug bug db))"
proof (cases "b_discord_message_id bug \<in> set (map b_discord_message_id (bugs db))")
  case True
  then show ?thesis using assms by (simp add: addBug_duplicate)
next
  case False
  have "\<And>b. b \<in> set (bugs db) \<Longrightarrow> b_id b \<noteq> Suc (bugs_seq db)"
    using assms by (auto simp: db_ok_def list_all_iff)
  then show ?thesis
    using assms False unfolding addBug_fresh [OF False]
    by (auto simp: db_ok_def list_all_iff)
qed

lemma addBugUpdate_fresh:
  assumes "u_discord_message_id update \<notin> set (map u_discord_message_id (bug_updates db))"
    "u_bug_id update \<in> set (map b_id (bugs db))"
  shows "addBugUpdate update db =
     Inr (Some (update\<lparr>u_id := Suc (bug_updates_seq db)\<rparr>),
          db\<lparr>bug_updates := bug_updates db @ [update\<lparr>u_id := Suc (bug_updates_seq db)\<rparr>],
             bug_updates_seq := Suc (bug_updates_seq db),
             bugs := map (\<lambda>b. if b_id b = u_bug_id update
                               then b\<lparr>b_updated_at := u_created_at update\<rparr> else b) (bugs db)\<rparr>)"
  using assms by (simp add: addBugUpdate_def Let_def)

lemma db_ok_addBugUpdate:
  assumes "db_ok db" "addBugUpdate update db = Inr (r, db')" shows "db_ok db'"
proof (cases "u_discord_message_id update \<in> set (map u_discord_message_id (bug_updates db))")
  case True
  then show ?thesis using assms by (simp add: addBugUpdate_duplicate)
next
  case False
  with assms(2) have fk: "u_bug_id update \<in> set (map b_id (bugs db))"
    by (auto simp: addBugUpdate_def split: if_splits)
  have new: "\<And>u. u \<in> set (bug_updates db) \<Longrightarrow> u_id u \<noteq> Suc (bug_updates_seq db)"
    using assms(1) by (auto simp: db_ok_def list_all_iff)
  from assms(2) have db': "db' = db\<lparr>bug_updates := bug_updates db @ [update\<lparr>u_id := Suc (bug_updates_seq db)\<rparr>],
             bug_updates_seq := Suc (bug_updates_seq db),
             bugs := map (\<lambda>b. if b_id b = u_bug_id update
                               then b\<lparr>b_updated_at := u_created_at update\<rparr> else b) (bugs db)\<rparr>"
    unfolding addBugUpdate_fresh [OF False fk] by simp
  show ?thesis
    using assms(1) False fk new unfolding db' db_ok_alt
    by (auto simp: o_def list_all_iff)
qed

section \<open>Resolving a reply\<close>

lemma replyTarget_direct:
  assumes "distinct (map b_discord_message_id (bugs db))" "b \<in> set (bugs db)"
  shows "replyTarget db (b_discord_message_id b) = Some b"
  using find_key_distinct [OF assms] by (simp add: replyTarget_def getBugByMessageId_def)

lemma replyTarget_via_update:
  assumes ok: "db_ok db" and u: "u \<in> set (bug_updates db)" and b: "b \<in> set (bugs db)"
    and own: "u_bug_id u = b_id b"
    and nobug: "u_discord_message_id u \<notin> set (map b_discord_message_id (bugs db))"
  shows "replyTarget db (u_discord_message_id u) = Some b"
proof -
  from nobug have 1: "getBugByMessageId db (u_discord_message_id u) = None"
    by (simp add: getBugByMessageId_None)
  from ok b own have "u_bug_id u \<noteq> 0" using db_ok_bug_id_pos [of db b] by simp
  with ok u have 2: "getBugIdFromUpdateMessage db (u_discord_message_id u) = Some (u_bug_id u)"
    by (intro getBugIdFromUpdateMessage_member) (simp_all add: db_ok_def)
  from ok b have 3: "getBugById db (b_id b) = Some b"
    by (intro getBugById_member) (simp_all add: db_ok_def)
  show ?thesis by (simp add: replyTarget_def 1 2 own 3)
qed

lemma replyTarget_None:
  assumes ok: "db_ok db"
  shows "(replyTarget db r = None)
         = (r \<notin> set (map b_discord_message_id (bugs db))
            \<and> r \<notin> set (map u_discord_message_id (bug_updates db)))"
proof
  assume none: "replyTarget db r = None"
  then have nb: "getBugByMessageId db r = None"
    by (auto simp: replyTarget_def split: option.splits)
  have "r \<notin> set (map u_discord_message_id (bug_updates db))"
  proof
    assume "r \<in> set (map u_discord_message_id (bug_updates db))"
    then obtain u where u: "u \<in> set (bug_updates db)" "u_discord_message_id u = r" by auto
    from db_ok_update_bug [OF ok u(1)] obtain b where b: "b \<in> set (bugs db)" "u_bug_id u = b_id b"
      by auto
    from nb have "u_discord_message_id u \<notin> set (map b_discord_message_id (bugs db))"
      by (simp add: getBugByMessageId_None u(2))
    from replyTarget_via_update [OF ok u(1) b this] none u(2) show False by simp
  qed
  with nb show "r \<notin> set (map b_discord_message_id (bugs db))
            \<and> r \<notin> set (map u_discord_message_id (bug_updates db))"
    by (simp add: getBugByMessageId_None)
next
  assume a: "r \<notin> set (map b_discord_message_id (bugs db))
            \<and> r \<notin> set (map u_discord_message_id (bug_updates db))"
  then have "getBugByMessageId db r = None" by (simp add: getBugByMessageId_None)
  moreover from a have "find (\<lambda>u. u_discord_message_id u = r) (bug_updates db) = None"
    by (simp add: find_key_None)
  ultimately show "replyTarget db r = None"
    by (simp add: replyTarget_def getBugIdFromUpdateMessage_def)
qed

section \<open>A plain reply, live\<close>

lemma getMonitoredChannelIds_cong:
  "monitored_channels (bot_db s') = monitored_channels (bot_db s)
     \<Longrightarrow> bot_channelIds s' = bot_channelIds s
     \<Longrightarrow> getMonitoredChannelIds s' = getMonitoredChannelIds s"
  by (simp add: getMonitoredChannelIds_def getAllMonitoredChannelIds_def)

lemma addBugUpdate_newUpdate:
  assumes "m_id m \<notin> set (map u_discord_message_id (bug_updates db))"
    "i \<in> set (map b_id (bugs db))"
  shows "addBugUpdate (newUpdate i m) db =
     Inr (Some ((newUpdate i m)\<lparr>u_id := Suc (bug_updates_seq db)\<rparr>),
          db\<lparr>bug_updates := bug_updates db @ [(newUpdate i m)\<lparr>u_id := Suc (bug_updates_seq db)\<rparr>],
             bug_updates_seq := Suc (bug_updates_seq db),
             bugs := map (\<lambda>x. if b_id x = i then x\<lparr>b_updated_at := m_createdAt m\<rparr> else x)
                         (bugs db)\<rparr>)"
  using assms by (simp add: addBugUpdate_def Let_def)

lemma handleReply_fresh:
  assumes ref: "m_reference m = Some r" and tgt: "replyTarget (bot_db self) r = Some b"
    and fresh: "m_id m \<notin> set (map u_discord_message_id (bug_updates (bot_db self)))"
  shows "handleReply m self =
     Inr (True, addToRecentMessages (m_channelId m) m (Some (b_id b))
       (self\<lparr>bot_db := (bot_db self)
          \<lparr>bug_updates := bug_updates (bot_db self)
                            @ [(newUpdate (b_id b) m)\<lparr>u_id := Suc (bug_updates_seq (bot_db self))\<rparr>],
           bug_updates_seq := Suc (bug_updates_seq (bot_db self)),
           bugs := map (\<lambda>x. if b_id x = b_id b then x\<lparr>b_updated_at := m_createdAt m\<rparr> else x)
                       (bugs (bot_db self))\<rparr>\<rparr>))"
proof -
  from replyTarget_Some [OF tgt] have "b_id b \<in> set (map b_id (bugs (bot_db self)))"
    by simp
  from addBugUpdate_newUpdate [OF fresh this]
  show ?thesis by (simp add: handleReply_def ref tgt)
qed

lemma handleMessage_plain_reply:
  assumes "\<not> m_author_bot m" "isMonitoredChannel self (m_channelId m)"
    "\<not> isNewBugReport (m_content m)" "\<not> isCompletionMarker (m_content m)"
    and ref: "m_reference m = Some r" and tgt: "replyTarget (bot_db self) r = Some b"
    and fresh: "m_id m \<notin> set (map u_discord_message_id (bug_updates (bot_db self)))"
  shows "handleMessage toLowerCase gw now m self =
     Inr (addToRecentMessages (m_channelId m) m (Some (b_id b))
       (self\<lparr>bot_db := (bot_db self)
          \<lparr>bug_updates := bug_updates (bot_db self)
                            @ [(newUpdate (b_id b) m)\<lparr>u_id := Suc (bug_updates_seq (bot_db self))\<rparr>],
           bug_updates_seq := Suc (bug_updates_seq (bot_db self)),
           bugs := map (\<lambda>x. if b_id x = b_id b then x\<lparr>b_updated_at := m_createdAt m\<rparr> else x)
                       (bugs (bot_db self))\<rparr>\<rparr>))"
  using assms(1-4) by (simp add: handleMessage_def ref handleReply_fresh [OF ref tgt fresh])

lemma reply_chain_attaches:
  assumes "db_ok (bot_db self)"
    and "replyTarget (bot_db self) r = Some b"
    and "replyChain r (map snd events)"
    and "list_all (\<lambda>e. \<not> m_author_bot (snd e) \<and> isMonitoredChannel self (m_channelId (snd e))
                       \<and> \<not> isNewBugReport (m_content (snd e))
                       \<and> \<not> isCompletionMarker (m_content (snd e))) events"
    and "distinct (map (\<lambda>e. m_id (snd e)) events)"
    and "list_all (\<lambda>e. m_id (snd e) \<notin> set (map b_discord_message_id (bugs (bot_db self)))
                       \<and> m_id (snd e) \<notin> set (map u_discord_message_id (bug_updates (bot_db self))))
           events"
  shows "\<exists>self'. handleMessages toLowerCase gw events self = Inr self'
           \<and> db_ok (bot_db self')
           \<and> set (bug_updates (bot_db self)) \<subseteq> set (bug_updates (bot_db self'))
           \<and> list_all (\<lambda>e. \<exists>u\<in>set (bug_updates (bot_db self')).
                               u_discord_message_id u = m_id (snd e) \<and> u_bug_id u = b_id b) events"
  using assms
proof (induction events arbitrary: self r b)
  case Nil
  then show ?case by simp
next
  case (Cons e events)
  let ?m = "snd e"
  let ?db = "bot_db self"
  let ?row = "(newUpdate (b_id b) ?m)\<lparr>u_id := Suc (bug_updates_seq ?db)\<rparr>"
  let ?db2 = "?db\<lparr>bug_updates := bug_updates ?db @ [?row],
                 bug_updates_seq := Suc (bug_updates_seq ?db),
                 bugs := map (\<lambda>x. if b_id x = b_id b then x\<lparr>b_updated_at := m_createdAt ?m\<rparr> else x)
                             (bugs ?db)\<rparr>"
  let ?s2 = "addToRecentMessages (m_channelId ?m) ?m (Some (b_id b)) (self\<lparr>bot_db := ?db2\<rparr>)"
  from Cons.prems(3) have ref: "m_reference ?m = Some r" and chain: "replyChain (m_id ?m) (map snd events)"
    by simp_all
  from Cons.prems(4) have plain: "\<not> m_author_bot ?m" "isMonitoredChannel self (m_channelId ?m)"
      "\<not> isNewBugReport (m_content ?m)" "\<not> isCompletionMarker (m_content ?m)"
    by simp_all
  from Cons.prems(6) have fresh: "m_id ?m \<notin> set (map u_discord_message_id (bug_updates ?db))"
      and nobug: "m_id ?m \<notin> set (map b_discord_message_id (bugs ?db))"
    by simp_all
  have step: "handleMessage toLowerCase gw (fst e) ?m self = Inr ?s2"
    by (rule handleMessage_plain_reply [OF plain ref Cons.prems(2) fresh])
  have bin: "b \<in> set (bugs ?db)" by (rule replyTarget_Some [OF Cons.prems(2)])
  then have fk: "b_id b \<in> set (map b_id (bugs ?db))" by simp
  have add: "addBugUpdate (newUpdate (b_id b) ?m) ?db = Inr (Some ?row, ?db2)"
    by (rule addBugUpdate_newUpdate [OF fresh fk])
  have ok2: "db_ok ?db2" by (rule db_ok_addBugUpdate [OF Cons.prems(1) add])
  have db2: "bot_db ?s2 = ?db2" by simp
  let ?b2 = "if b_id b = b_id b then b\<lparr>b_updated_at := m_createdAt ?m\<rparr> else b"
  have b2in: "b\<lparr>b_updated_at := m_createdAt ?m\<rparr> \<in> set (bugs ?db2)"
    using bin by (auto simp: image_iff intro!: bexI [of _ b])
  have tgt2: "replyTarget ?db2 (u_discord_message_id ?row) = Some (b\<lparr>b_updated_at := m_createdAt ?m\<rparr>)"
    by (rule replyTarget_via_update [OF ok2 _ b2in]) (use nobug in \<open>simp_all add: o_def\<close>)
  have mon: "getMonitoredChannelIds ?s2 = getMonitoredChannelIds self"
    by (rule getMonitoredChannelIds_cong) simp_all
  have p4: "list_all (\<lambda>e. \<not> m_author_bot (snd e) \<and> isMonitoredChannel ?s2 (m_channelId (snd e))
                       \<and> \<not> isNewBugReport (m_content (snd e))
                       \<and> \<not> isCompletionMarker (m_content (snd e))) events"
    using Cons.prems(4) by (simp add: isMonitoredChannel_def mon)
  have p5: "distinct (map (\<lambda>e. m_id (snd e)) events)" using Cons.prems(5) by simp
  have p6: "list_all (\<lambda>e. m_id (snd e) \<notin> set (map b_discord_message_id (bugs (bot_db ?s2)))
                       \<and> m_id (snd e) \<notin> set (map u_discord_message_id (bug_updates (bot_db ?s2))))
           events"
    using Cons.prems(5,6) by (auto simp: list_all_iff o_def image_iff)
  from Cons.IH [of ?s2 "m_id ?m" "b\<lparr>b_updated_at := m_createdAt ?m\<rparr>"] ok2 tgt2 chain p4 p5 p6
  obtain self' where r: "handleMessages toLowerCase gw events ?s2 = Inr self'" "db_ok (bot_db self')"
      "set (bug_updates (bot_db ?s2)) \<subseteq> set (bug_updates (bot_db self'))"
      "list_all (\<lambda>e. \<exists>u\<in>set (bug_updates (bot_db self')).
                               u_discord_message_id u = m_id (snd e) \<and> u_bug_id u = b_id b) events"
    by (auto simp: db2)
  from r(3) have rowin: "?row \<in> set (bug_updates (bot_db self'))" by (auto simp: db2)
  have "handleMessages toLowerCase gw (e # events) self = Inr self'" by (simp add: step r(1))
  moreover have "set (bug_updates ?db) \<subseteq> set (bug_updates (bot_db self'))"
    using r(3) by (auto simp: db2)
  moreover have "\<exists>u\<in>set (bug_updates (bot_db self')).
                   u_discord_message_id u = m_id ?m \<and> u_bug_id u = b_id b"
    using rowin by (intro bexI [of _ ?row]) simp_all
  ultimately show ?case using r(2,4) by simp
qed

section \<open>Evaluating the model on the sample data\<close>

lemmas string_eval = isNewBugReport_def isCompletionMarker_def startsWith_def trim_def
  PLAY_def CHECK_def str_def isWhiteSpace_def detectType_def bugKeywords_def asciiLowerCase_def

lemmas store_eval = addBug_def addBugUpdate_def getBugById_def getBugByMessageId_def
  getBugIdFromUpdateMessage_def updateBugStatus_def getOpenBugs_def getRecentlyActiveBugs_def
  replyTarget_def openBugFor_def newBug_def newUpdate_def discordUrl_def extractReactions_def
  hasCheckReaction_def emptyDatabase_def

lemmas bot_eval = handleMessage_def handleReply_def handleContextMessage_def handleCompletion_def
  createBug_def addToRecentMessages_def isMonitoredChannel_def getMonitoredChannelIds_def
  getAllMonitoredChannelIds_def MAX_RECENT_MESSAGES_def truthy_def Let_def

lemmas demo_eval = demoGateway_def demoMessage_def demoBot_def demoStore_def demoBugRow_def
  demoUpdateRow_def sampleStore_def sampleScan_def sampleHistory_def

lemma sampleStore_ok: "db_ok sampleStore"
  by (simp add: db_ok_def demo_eval newBug_def newUpdate_def)

text \<open>
  Claim C4, as the code has it. In a well-formed store a reference to the message of an
  update of bug B resolves to B, provided the same message is not also the originating
  message of a bug (the direct lookup comes first); the lookup gives nothing exactly when
  the referenced id is neither the message of a bug nor the message of an update; and a
  chain of plain live replies with new message ids, of any length, that starts at the
  message of a tracked bug is attached to that bug, message by message.
\<close>

theorem reply_resolves_to_root_bug:
  assumes "db_ok db"
  shows "(u \<in> set (bug_updates db) \<and> b \<in> set (bugs db) \<and> u_bug_id u = b_id b
            \<and> u_discord_message_id u \<notin> set (map b_discord_message_id (bugs db))
          \<longrightarrow> replyTarget db (u_discord_message_id u) = Some b)
       \<and> ((replyTarget db r = None)
            = (r \<notin> set (map b_discord_message_id (bugs db))
               \<and> r \<notin> set (map u_discord_message_id (bug_updates db))))
       \<and> (bot_db self = db \<and> root \<in> set (bugs db)
            \<and> replyChain (b_discord_message_id root) (map snd events)
            \<and> list_all (\<lambda>e. \<not> m_author_bot (snd e)
                              \<and> isMonitoredChannel self (m_channelId (snd e))
                              \<and> \<not> isNewBugReport (m_content (snd e))
                              \<and> \<not> isCompletionMarker (m_content (snd e))) events
            \<and> distinct (map (\<lambda>e. m_id (snd e)) events)
            \<and> list_all (\<lambda>e. m_id (snd e) \<notin> set (map b_discord_message_id (bugs db))
                              \<and> m_id (snd e) \<notin> set (map u_discord_message_id (bug_updates db)))
                  events
          \<longrightarrow> (\<exists>self'. handleMessages toLowerCase gw events self = Inr self'
                 \<and> list_all (\<lambda>e. \<exists>u\<in>set (bug_updates (bot_db self')).
                                     u_discord_message_id u = m_id (snd e)
                                     \<and> u_bug_id u = b_id root) events))"
proof (intro conjI impI)
  assume "u \<in> set (bug_updates db) \<and> b \<in> set (bugs db) \<and> u_bug_id u = b_id b
            \<and> u_discord_message_id u \<notin> set (map b_discord_message_id (bugs db))"
  with assms show "replyTarget db (u_discord_message_id u) = Some b"
    by (intro replyTarget_via_update) simp_all
next
  show "(replyTarget db r = None)
            = (r \<notin> set (map b_discord_message_id (bugs db))
               \<and> r \<notin> set (map u_discord_message_id (bug_updates db)))"
    by (rule replyTarget_None [OF assms])
next
  assume a: "bot_db self = db \<and> root \<in> set (bugs db)
            \<and> replyChain (b_discord_message_id root) (map snd events)
            \<and> list_all (\<lambda>e. \<not> m_author_bot (snd e)
                              \<and> isMonitoredChannel self (m_channelId (snd e))
                              \<and> \<not> isNewBugReport (m_content (snd e))
                              \<and> \<not> isCompletionMarker (m_content (snd e))) events
            \<and> distinct (map (\<lambda>e. m_id (snd e)) events)
            \<and> list_all (\<lambda>e. m_id (snd e) \<notin> set (map b_discord_message_id (bugs db))
                              \<and> m_id (snd e) \<notin> set (map u_discord_message_id (bug_updates db)))
                  events"
  then have db: "bot_db self = db" by simp
  from a assms have tgt: "replyTarget (bot_db self) (b_discord_message_id root) = Some root"
    unfolding db by (intro replyTarget_direct) (simp_all add: db_ok_def)
  from reply_chain_attaches [of self "b_discord_message_id root" root events toLowerCase gw] assms a tgt
  show "\<exists>self'. handleMessages toLowerCase gw events self = Inr self'
                 \<and> list_all (\<lambda>e. \<exists>u\<in>set (bug_updates (bot_db self')).
                                     u_discord_message_id u = m_id (snd e)
                                     \<and> u_bug_id u = b_id root) events"
    unfolding db by blast
qed

theorem reply_resolves_to_root_bug_witness:
  "db_ok sampleStore
   \<and> replyTarget sampleStore 101 = Some (demoBugRow 1 Open 100 (PLAY @ str '' login broken''))
   \<and> replyTarget sampleStore 555 = None
   \<and> (\<exists>self'. handleMessages asciiLowerCase demoGateway chainEvents (demoBot None sampleStore) = Inr self'
         \<and> list_all (\<lambda>e. \<exists>u\<in>set (bug_updates (bot_db self')).
                             u_discord_message_id u = m_id (snd e) \<and> u_bug_id u = 1) chainEvents)"
proof -
  have 1: "demoUpdateRow 1 1 101 (str ''me too'') (Some 100) \<in> set (bug_updates sampleStore)
     \<and> demoBugRow 1 Open 100 (PLAY @ str '' login broken'') \<in> set (bugs sampleStore)
     \<and> u_bug_id (demoUpdateRow 1 1 101 (str ''me too'') (Some 100))
        = b_id (demoBugRow 1 Open 100 (PLAY @ str '' login broken''))
     \<and> u_discord_message_id (demoUpdateRow 1 1 101 (str ''me too'') (Some 100))
        \<notin> set (map b_discord_message_id (bugs sampleStore))"
    by (simp add: demo_eval newBug_def newUpdate_def)
  have 2: "555 \<notin> set (map b_discord_message_id (bugs sampleStore))
           \<and> 555 \<notin> set (map u_discord_message_id (bug_updates sampleStore))"
    by (simp add: demo_eval newBug_def newUpdate_def)
  have 3: "bot_db (demoBot None sampleStore) = sampleStore
     \<and> demoBugRow 1 Open 100 (PLAY @ str '' login broken'') \<in> set (bugs sampleStore)
     \<and> replyChain (b_discord_message_id (demoBugRow 1 Open 100 (PLAY @ str '' login broken'')))
          (map snd chainEvents)
     \<and> list_all (\<lambda>e. \<not> m_author_bot (snd e)
                       \<and> isMonitoredChannel (demoBot None sampleStore) (m_channelId (snd e))
                       \<and> \<not> isNewBugReport (m_content (snd e))
                       \<and> \<not> isCompletionMarker (m_content (snd e))) chainEvents
     \<and> distinct (map (\<lambda>e. m_id (snd e)) chainEvents)
     \<and> list_all (\<lambda>e. m_id (snd e) \<notin> set (map b_discord_message_id (bugs sampleStore))
                       \<and> m_id (snd e) \<notin> set (map u_discord_message_id (bug_updates sampleStore)))
          chainEvents"
    by (simp add: chainEvents_def demo_eval newBug_def newUpdate_def sample_plain
          isMonitoredChannel_def getMonitoredChannelIds_def getAllMonitoredChannelIds_def)
  have 4: "b_id (demoBugRow 1 Open 100 (PLAY @ str '' login broken'')) = 1"
    "u_discord_message_id (demoUpdateRow 1 1 101 (str ''me too'') (Some 100)) = 101"
    by (simp_all add: demo_eval newUpdate_def)
  from reply_resolves_to_root_bug [OF sampleStore_ok,
      of "demoUpdateRow 1 1 101 (str ''me too'') (Some 100)"
         "demoBugRow 1 Open 100 (PLAY @ str '' login broken'')" 555
         "demoBot None sampleStore" "demoBugRow 1 Open 100 (PLAY @ str '' login broken'')"
         chainEvents asciiLowerCase demoGateway] 1 2 3
  show ?thesis unfolding 4 using sampleStore_ok by simp
qed

theorem edited_reply_counterexample:
  "(case handleMessages asciiLowerCase demoGateway editedReplyEvents (demoBot None (demoStore [] [])) of
      Inl e \<Rightarrow> None
    | Inr self' \<Rightarrow>
        Some (map (\<lambda>u. (u_discord_message_id u, u_bug_id u)) (bug_updates (bot_db self')),
              map (\<lambda>b. (b_discord_message_id b, b_id b)) (bugs (bot_db self')),
              map_option b_id (replyTarget (bot_db self') 101)))
   = Some ([(101, 1)], [(100, 1), (101, 2)], Some 2)"
  by (simp add: editedReplyEvents_def string_eval store_eval bot_eval demo_eval)

section \<open>Replies, live\<close>

lemma openBugFor_replyTarget:
  assumes "replyTarget db r = Some b" "b_status b = Open"
  shows "openBugFor db r = Some (b_id b)"
  using assms
  by (auto simp: replyTarget_def openBugFor_def Let_def split: option.splits
           dest: getBugById_Some getBugByMessageId_Some)

lemma updateBugStatus_member:
  "b \<in> set (bugs db)
     \<Longrightarrow> b\<lparr>b_status := st, b_updated_at := now\<rparr> \<in> set (bugs (updateBugStatus (b_id b) st now db))"
  by (auto simp: updateBugStatus_def image_iff intro!: bexI [of _ b])

lemma sample_done: "\<not> isNewBugReport (CHECK @ str '' fixed in the latest build'')"
  "isCompletionMarker (CHECK @ str '' fixed in the latest build'')"
  by (simp_all add: string_eval)

text \<open>
  A live reply without the "done" glyph, of a human author in a monitored channel, that
  resolves to the bug B is appended to the updates of B, and no status changes; when
  its message id is already an update, nothing changes.
\<close>

lemma live_plain_reply_is_stored:
  assumes "\<not> m_author_bot m" "isMonitoredChannel self (m_channelId m)"
    "\<not> isNewBugReport (m_content m)" "\<not> isCompletionMarker (m_content m)"
    "m_reference m = Some r" "replyTarget (bot_db self) r = Some b"
  shows "(m_id m \<notin> set (map u_discord_message_id (bug_updates (bot_db self)))
          \<longrightarrow> (\<exists>self'. handleMessage toLowerCase gw now m self = Inr self'
                 \<and> bug_updates (bot_db self')
                   = bug_updates (bot_db self)
                     @ [(newUpdate (b_id b) m)\<lparr>u_id := Suc (bug_updates_seq (bot_db self))\<rparr>]
                 \<and> map b_status (bugs (bot_db self')) = map b_status (bugs (bot_db self))))
       \<and> (m_id m \<in> set (map u_discord_message_id (bug_updates (bot_db self)))
          \<longrightarrow> (\<exists>self'. handleMessage toLowerCase gw now m self = Inr self'
                 \<and> bot_db self' = bot_db self))"
proof (intro conjI impI)
  assume a: "m_id m \<notin> set (map u_discord_message_id (bug_updates (bot_db self)))"
  then have "handleMessage toLowerCase gw now m self =
     Inr (addToRecentMessages (m_channelId m) m (Some (b_id b))
       (self\<lparr>bot_db := (bot_db self)
          \<lparr>bug_updates := bug_updates (bot_db self)
                            @ [(newUpdate (b_id b) m)\<lparr>u_id := Suc (bug_updates_seq (bot_db self))\<rparr>],
           bug_updates_seq := Suc (bug_updates_seq (bot_db self)),
           bugs := map (\<lambda>x. if b_id x = b_id b then x\<lparr>b_updated_at := m_createdAt m\<rparr> else x)
                       (bugs (bot_db self))\<rparr>\<rparr>))"
    using assms by (intro handleMessage_plain_reply) simp_all
  then show "\<exists>self'. handleMessage toLowerCase gw now m self = Inr self'
                 \<and> bug_updates (bot_db self')
                   = bug_updates (bot_db self)
                     @ [(newUpdate (b_id b) m)\<lparr>u_id := Suc (bug_updates_seq (bot_db self))\<rparr>]
                 \<and> map b_status (bugs (bot_db self')) = map b_status (bugs (bot_db self))"
    by (simp add: o_def)
next
  assume "m_id m \<in> set (map u_discord_message_id (bug_updates (bot_db self)))"
  with assms(3,4)
  show "\<exists>self'. handleMessage toLowerCase gw now m self = Inr self' \<and> bot_db self' = bot_db self"
    by (intro handleMessage_duplicate_update) simp_all
qed

text \<open>
  A live completion message never reaches \<open>handleReply\<close>: when it replies to a message that
  resolves to an open bug, \<open>handleCompletion\<close> writes the status and returns.
\<close>

lemma live_done_reply_only_closes:
  assumes "\<not> m_author_bot m" "isMonitoredChannel self (m_channelId m)"
    "\<not> isNewBugReport (m_content m)" "isCompletionMarker (m_content m)"
    "m_reference m = Some r" "replyTarget (bot_db self) r = Some b" "b_status b = Open"
  shows "handleMessage toLowerCase gw now m self
           = Inr (self\<lparr>bot_db := updateBugStatus (b_id b) Fixed now (bot_db self)\<rparr>)"
proof -
  from assms(6,7) have "openBugFor (bot_db self) r = Some (b_id b)"
    by (rule openBugFor_replyTarget)
  with assms(1-5) show ?thesis
    by (simp add: handleMessage_def handleCompletion_def Let_def)
qed

text \<open>
  Claim C3. A live reply that resolves to a tracked bug is inserted as a BugUpdate of
  that bug, and if its text holds the "done" glyph and the bug is open, the bug becomes
  fixed as well. The code does not do the first for a reply that holds the glyph. In
  the sample store the bug 1 (message 100) is open and has the one update 101. The reply
  103 to the message 101, "done glyph, fixed in the latest build", resolves to the bug 1.
  Handled live, the bug becomes fixed and the updates are still the message 101 alone:
  the reply is dropped. The scan of a channel that was just added, given the same
  message on the same store, marks the bug fixed and stores the reply as the update 103.
\<close>

theorem live_done_reply_is_dropped:
  "replyTarget sampleStore 101 = Some (demoBugRow 1 Open 100 (PLAY @ str '' login broken''))
   \<and> (case handleMessage asciiLowerCase demoGateway 5000
             (demoMessage 103 (CHECK @ str '' fixed in the latest build'') (Some 101))
             (demoBot None sampleStore) of
         Inl e \<Rightarrow> None
       | Inr self' \<Rightarrow> Some (map b_status (bugs (bot_db self')),
                           map u_discord_message_id (bug_updates (bot_db self'))))
      = Some ([Fixed], [101])
   \<and> (case historyMessage asciiLowerCase ''bugs'' 5000
             (demoMessage 103 (CHECK @ str '' fixed in the latest build'') (Some 101))
             (sampleHistory sampleStore) of
         (e, h) \<Rightarrow> (e, map b_status (bugs (hp_db h)),
                    map u_discord_message_id (bug_updates (hp_db h))))
      = (None, [Fixed], [101, 103])"
  by (simp add: string_eval store_eval bot_eval demo_eval historyMessage_def)

text \<open>
  The same routing sends a "done" reply to a bug that is fixed already on to the matcher
  of standalone completions: the reply 400 to the fixed bug 1 closes the bug 2, the only
  open one, which the reply does not refer to.
\<close>

lemma live_done_reply_to_fixed_bug:
  "(case handleMessage asciiLowerCase demoGateway 5000
           (demoMessage 400 (CHECK @ str '' fixed in the latest build'') (Some 100))
           (demoBot None (demoStore [demoBugRow 1 Fixed 100 (PLAY @ str '' login broken''),
                                     demoBugRow 2 Open 200 (PLAY @ str '' dark mode please'')] [])) of
      Inl e \<Rightarrow> None
    | Inr self' \<Rightarrow> Some (map b_status (bugs (bot_db self')),
                        map b_updated_at (bugs (bot_db self'))))
   = Some ([Fixed, Fixed], [100, 5000])"
  by (simp add: string_eval store_eval bot_eval demo_eval)

section \<open>Standalone completion messages\<close>

lemmas matcher_eval = findExactOrCloseMatch_def closeMatch_def stripPlayPrefix_def
  stripBugPrefix_def splitWhiteSpace.simps matchCompletionToBug_def shouldAddToBug_def
  failingAnalyzer_def bugOneAnalyzer_def

lemma getOpenBugs_single:
  assumes "getOpenBugs db = [b]"
  shows "filter (\<lambda>x. b_status x = Open) (bugs db) = [b]"
proof -
  let ?xs = "filter (\<lambda>x. b_status x = Open) (bugs db)"
  from assms have r: "sort_key (\<lambda>b. - int (b_updated_at b)) ?xs = [b]"
    by (simp add: getOpenBugs_def)
  then have "length ?xs = 1"
    using length_sort [of "\<lambda>b. - int (b_updated_at b)" ?xs] by simp
  then obtain y where y: "?xs = [y]" by (cases ?xs) auto
  with r show ?thesis by simp
qed

lemma getOpenBugs_member: "b \<in> set (getOpenBugs db) \<Longrightarrow> b \<in> set (bugs db) \<and> b_status b = Open"
  by (simp add: getOpenBugs_def)

lemma getOpenBugs_closed:
  assumes "getOpenBugs db = [b]"
  shows "getOpenBugs (updateBugStatus (b_id b) Fixed now db) = []"
proof -
  have "\<And>x. x \<in> set (bugs db) \<Longrightarrow> b_status x = Open \<Longrightarrow> x = b"
  proof -
    fix x assume "x \<in> set (bugs db)" "b_status x = Open"
    then have "x \<in> set (filter (\<lambda>x. b_status x = Open) (bugs db))" by simp
    then show "x = b" unfolding getOpenBugs_single [OF assms] by simp
  qed
  then have "filter (\<lambda>x. b_status x = Open) (bugs (updateBugStatus (b_id b) Fixed now db)) = []"
    by (auto simp: updateBugStatus_def filter_empty_conv)
  then show ?thesis by (simp add: getOpenBugs_def)
qed

lemma firstCloseMatch_single:
  "firstCloseMatch toLowerCase t [(i, c)] = None \<or> firstCloseMatch toLowerCase t [(i, c)] = Some i"
  by simp

lemma handleCompletion_only_open_bug:
  assumes "m_reference m = None" "getOpenBugs (bot_db self) = [b]"
  shows "handleCompletion toLowerCase now m self
         = self\<lparr>bot_db := updateBugStatus (b_id b) Fixed now (bot_db self)\<rparr>"
proof (cases "bot_analyzer self")
  case None
  with assms show ?thesis by (simp add: handleCompletion_def Let_def)
next
  case (Some a)
  let ?t = "trim (replaceCheck (m_content m))"
  from firstCloseMatch_single [of toLowerCase "trim (toLowerCase ?t)" "b_id b" "b_content b"]
  have "findExactOrCloseMatch toLowerCase ?t [(b_id b, b_content b)] = None
        \<or> findExactOrCloseMatch toLowerCase ?t [(b_id b, b_content b)] = Some (b_id b)"
    by (simp add: findExactOrCloseMatch_def Let_def)
  then show ?thesis
    using assms Some
    by (auto simp: handleCompletion_def Let_def truthy_def matchCompletionToBug_def)
qed

text \<open>
  Claim C6. With exactly one open bug, a live completion message without a reply
  reference closes that bug, whatever the text and whether or not an analyzer is
  configured: the exact match can only name that bug, \<open>matchCompletionToBug\<close> answers a
  single candidate with confidence \<open>medium\<close> without a request to the service, and
  without an analyzer the "only open bug" branch applies. Afterwards no bug is open.
\<close>

theorem single_open_bug_is_closed:
  assumes "\<not> m_author_bot m" "isMonitoredChannel self (m_channelId m)"
    "\<not> isNewBugReport (m_content m)" "isCompletionMarker (m_content m)"
    "m_reference m = None" "getOpenBugs (bot_db self) = [b]"
  shows "handleMessage toLowerCase gw now m self
           = Inr (self\<lparr>bot_db := updateBugStatus (b_id b) Fixed now (bot_db self)\<rparr>)
       \<and> b\<lparr>b_status := Fixed, b_updated_at := now\<rparr>
           \<in> set (bugs (updateBugStatus (b_id b) Fixed now (bot_db self)))
       \<and> getOpenBugs (updateBugStatus (b_id b) Fixed now (bot_db self)) = []
       \<and> matchCompletionToBug a t [(b_id b, b_content b, b_author_name b)]
           = (\<lparr>mr_bugId = Some (b_id b), mr_confidence = Medium,
               mr_reasoning = Some ''Only one open bug''\<rparr>, 0)"
proof (intro conjI)
  show "handleMessage toLowerCase gw now m self
           = Inr (self\<lparr>bot_db := updateBugStatus (b_id b) Fixed now (bot_db self)\<rparr>)"
    using assms(1-4) handleCompletion_only_open_bug [OF assms(5,6)]
    by (simp add: handleMessage_def)
next
  have "b \<in> set (getOpenBugs (bot_db self))" unfolding assms(6) by simp
  then have "b \<in> set (bugs (bot_db self))" by (simp add: getOpenBugs_member)
  then show "b\<lparr>b_status := Fixed, b_updated_at := now\<rparr>
           \<in> set (bugs (updateBugStatus (b_id b) Fixed now (bot_db self)))"
    by (rule updateBugStatus_member)
next
  show "getOpenBugs (updateBugStatus (b_id b) Fixed now (bot_db self)) = []"
    by (rule getOpenBugs_closed [OF assms(6)])
next
  show "matchCompletionToBug a t [(b_id b, b_content b, b_author_name b)]
           = (\<lparr>mr_bugId = Some (b_id b), mr_confidence = Medium,
               mr_reasoning = Some ''Only one open bug''\<rparr>, 0)"
    by (simp add: matchCompletionToBug_def)
qed

lemma sample_standalone_done:
  "\<not> isNewBugReport (CHECK @ str '' shipped'')" "isCompletionMarker (CHECK @ str '' shipped'')"
  by (simp_all add: string_eval)

lemma sampleStore_open: "getOpenBugs sampleStore = [demoBugRow 1 Open 100 (PLAY @ str '' login broken'')]"
  by (simp add: getOpenBugs_def demo_eval newBug_def)

theorem single_open_bug_is_closed_witness:
  "getOpenBugs sampleStore = [demoBugRow 1 Open 100 (PLAY @ str '' login broken'')]
   \<and> findExactOrCloseMatch asciiLowerCase (str ''shipped'') [(1, PLAY @ str '' login broken'')] = None
   \<and> handleMessage asciiLowerCase demoGateway 5000 (demoMessage 300 (CHECK @ str '' shipped'') None)
        (demoBot (Some failingAnalyzer) sampleStore)
      = Inr (demoBot (Some failingAnalyzer) (updateBugStatus 1 Fixed 5000 sampleStore))
   \<and> getOpenBugs (updateBugStatus 1 Fixed 5000 sampleStore) = []"
proof -
  have m: "isMonitoredChannel (demoBot (Some failingAnalyzer) sampleStore) 7"
    by (simp add: bot_eval demo_eval)
  have n: "findExactOrCloseMatch asciiLowerCase (str ''shipped'') [(1, PLAY @ str '' login broken'')] = None"
    by (simp add: matcher_eval string_eval Let_def)
  have i: "b_id (demoBugRow 1 Open 100 (PLAY @ str '' login broken'')) = 1"
    by (simp add: demo_eval)
  from single_open_bug_is_closed [of "demoMessage 300 (CHECK @ str '' shipped'') None"
      "demoBot (Some failingAnalyzer) sampleStore"
      "demoBugRow 1 Open 100 (PLAY @ str '' login broken'')" asciiLowerCase demoGateway 5000]
    m n i sample_standalone_done sampleStore_open
  show ?thesis by (simp add: demoMessage_def demoBot_def)
qed

lemma firstCloseMatch_first:
  assumes "list_all (\<lambda>p. \<not> closeMatch toLowerCase t (snd p)) pre" "closeMatch toLowerCase t (snd x)"
  shows "firstCloseMatch toLowerCase t (pre @ x # post) = Some (fst x)"
  using assms by (induction pre) simp_all

lemma closeMatch_includes: "js_includes (toLowerCase c) t \<Longrightarrow> closeMatch toLowerCase t c"
  by (simp add: closeMatch_def Let_def)

lemma handleCompletion_exact:
  assumes "m_reference m = None" "bot_analyzer self = Some a"
    "findExactOrCloseMatch toLowerCase (trim (replaceCheck (m_content m)))
       (map (\<lambda>b. (b_id b, b_content b)) (getOpenBugs (bot_db self))) = Some i" "i \<noteq> 0"
  shows "handleCompletion toLowerCase now m self = self\<lparr>bot_db := updateBugStatus i Fixed now (bot_db self)\<rparr>"
proof -
  from assms(3) have "getOpenBugs (bot_db self) \<noteq> []"
    by (auto simp: findExactOrCloseMatch_def Let_def)
  with assms show ?thesis
    by (simp add: handleCompletion_def Let_def truthy_def)
qed

text \<open>
  Claim C5, as the code has it. The text match is a method of the analyzer and runs
  only when one is configured; it goes through the open bugs, most recently updated
  first (rows updated in the same millisecond in the order of their insertion), and
  takes the first one that matches by any of its three tests. Lower-casing is that of
  the runtime, whatever its case table. So: with an
  analyzer configured and a well-formed store, if the completion text of a live
  standalone completion message (lower-cased and trimmed) occurs in the lower-cased text
  of the open bug X and no open bug before X in that order matches, X is closed, no
  other row changes, and no request is sent to the AI service.
\<close>

theorem exact_match_closes_without_ai:
  assumes "\<not> m_author_bot m" "isMonitoredChannel self (m_channelId m)"
    "\<not> isNewBugReport (m_content m)" "isCompletionMarker (m_content m)"
    "m_reference m = None" "bot_analyzer self = Some a" "db_ok (bot_db self)"
    "getOpenBugs (bot_db self) = pre @ x # post"
    "js_includes (toLowerCase (b_content x))
       (trim (toLowerCase (trim (replaceCheck (m_content m)))))"
    "list_all (\<lambda>b. \<not> closeMatch toLowerCase (trim (toLowerCase (trim (replaceCheck (m_content m)))))
                        (b_content b)) pre"
  shows "handleMessage toLowerCase gw now m self
           = Inr (self\<lparr>bot_db := updateBugStatus (b_id x) Fixed now (bot_db self)\<rparr>)
       \<and> bot_requests (self\<lparr>bot_db := updateBugStatus (b_id x) Fixed now (bot_db self)\<rparr>)
           = bot_requests self
       \<and> x\<lparr>b_status := Fixed, b_updated_at := now\<rparr>
           \<in> set (bugs (updateBugStatus (b_id x) Fixed now (bot_db self)))"
proof -
  let ?t = "trim (toLowerCase (trim (replaceCheck (m_content m))))"
  let ?f = "\<lambda>b. (b_id b, b_content b)"
  have "x \<in> set (getOpenBugs (bot_db self))" unfolding assms(8) by simp
  then have xin: "x \<in> set (bugs (bot_db self))" by (simp add: getOpenBugs_member)
  with assms(7) have pos: "b_id x \<noteq> 0" using db_ok_bug_id_pos [of "bot_db self" x] by simp
  have "firstCloseMatch toLowerCase ?t (map ?f pre @ ?f x # map ?f post) = Some (fst (?f x))"
    using assms(9,10) by (intro firstCloseMatch_first) (simp_all add: list_all_iff closeMatch_includes)
  then have "findExactOrCloseMatch toLowerCase (trim (replaceCheck (m_content m)))
       (map ?f (getOpenBugs (bot_db self))) = Some (b_id x)"
    by (simp add: findExactOrCloseMatch_def assms(8))
  from handleCompletion_exact [OF assms(5,6) this pos] assms(1-4)
  have "handleMessage toLowerCase gw now m self
           = Inr (self\<lparr>bot_db := updateBugStatus (b_id x) Fixed now (bot_db self)\<rparr>)"
    by (simp add: handleMessage_def)
  moreover have "x\<lparr>b_status := Fixed, b_updated_at := now\<rparr>
           \<in> set (bugs (updateBugStatus (b_id x) Fixed now (bot_db self)))"
    by (rule updateBugStatus_member [OF xin])
  ultimately show ?thesis by simp
qed

lemma sample_login_page:
  "\<not> isNewBugReport (CHECK @ str '' login page'')" "isCompletionMarker (CHECK @ str '' login page'')"
  "trim (asciiLowerCase (trim (replaceCheck (CHECK @ str '' login page'')))) = str ''login page''"
  by (simp_all add: string_eval)

lemma twoOpenBugs_ok: "db_ok twoOpenBugs"
  by (simp add: db_ok_def twoOpenBugs_def demo_eval newBug_def)

lemma twoOpenBugs_open:
  "getOpenBugs twoOpenBugs = [demoBugRow 2 Open 200 (PLAY @ str '' dark mode please'')]
     @ demoBugRow 1 Open 100 (PLAY @ str '' login page crashes'') # []"
  by (simp add: getOpenBugs_def twoOpenBugs_def demo_eval newBug_def)

lemma twoOpenBugs_match:
  "js_includes (asciiLowerCase (PLAY @ str '' login page crashes'')) (str ''login page'')"
  "\<not> js_includes (asciiLowerCase (PLAY @ str '' dark mode please'')) (str ''login page'')"
  "\<not> closeMatch asciiLowerCase (str ''login page'') (PLAY @ str '' dark mode please'')"
  by (simp_all add: matcher_eval string_eval Let_def)

theorem exact_match_closes_without_ai_witness:
  "db_ok twoOpenBugs
   \<and> js_includes (asciiLowerCase (PLAY @ str '' login page crashes'')) (str ''login page'')
   \<and> handleMessage asciiLowerCase demoGateway 5000 (demoMessage 300 (CHECK @ str '' login page'') None)
        (demoBot (Some failingAnalyzer) twoOpenBugs)
      = Inr (demoBot (Some failingAnalyzer) (updateBugStatus 1 Fixed 5000 twoOpenBugs))"
proof -
  have m: "isMonitoredChannel (demoBot (Some failingAnalyzer) twoOpenBugs) 7"
    by (simp add: bot_eval twoOpenBugs_def demo_eval)
  have f: "b_id (demoBugRow 1 Open 100 (PLAY @ str '' login page crashes'')) = 1"
    "b_content (demoBugRow 1 Open 100 (PLAY @ str '' login page crashes''))
       = PLAY @ str '' login page crashes''"
    "b_content (demoBugRow 2 Open 200 (PLAY @ str '' dark mode please''))
       = PLAY @ str '' dark mode please''"
    by (simp_all add: demo_eval newBug_def)
  from exact_match_closes_without_ai [of "demoMessage 300 (CHECK @ str '' login page'') None"
      "demoBot (Some failingAnalyzer) twoOpenBugs" failingAnalyzer
      "[demoBugRow 2 Open 200 (PLAY @ str '' dark mode please'')]"
      "demoBugRow 1 Open 100 (PLAY @ str '' login page crashes'')" "[]" asciiLowerCase
      demoGateway 5000]
    m f sample_login_page twoOpenBugs_ok twoOpenBugs_open twoOpenBugs_match
  show ?thesis by (simp add: demoMessage_def demoBot_def)
qed

theorem exact_match_counterexample:
  "map (\<lambda>b. js_includes (asciiLowerCase (b_content b)) (str ''login page'')) (bugs twoOpenBugs)
     = [True, False]
   \<and> handleMessage asciiLowerCase demoGateway 5000 (demoMessage 300 (CHECK @ str '' login page'') None)
        (demoBot None twoOpenBugs)
      = Inr (demoBot None twoOpenBugs)
   \<and> map (\<lambda>b. js_includes (asciiLowerCase (b_content b)) (str ''login page'')) (bugs twoSimilarBugs)
     = [True, False]
   \<and> (case handleMessage asciiLowerCase demoGateway 5000 (demoMessage 300 (CHECK @ str '' login page'') None)
             (demoBot (Some failingAnalyzer) twoSimilarBugs) of
         Inl e \<Rightarrow> None
       | Inr self' \<Rightarrow> Some (map b_status (bugs (bot_db self')), bot_requests self'))
      = Some ([Open, Fixed], 0)"
  by (simp add: twoOpenBugs_def twoSimilarBugs_def matcher_eval string_eval store_eval bot_eval
        demo_eval)

text \<open>
  When two open bugs that hold the text were last updated in the same millisecond, the
  one inserted first is closed.
\<close>

lemma exact_match_on_tied_rows:
  "map b_id (getOpenBugs twoTiedBugs) = [1, 2]
   \<and> (case handleMessage asciiLowerCase demoGateway 5000
             (demoMessage 300 (CHECK @ str '' login page'') None)
             (demoBot (Some failingAnalyzer) twoTiedBugs) of
         Inl e \<Rightarrow> None
       | Inr self' \<Rightarrow> Some (map b_status (bugs (bot_db self')), bot_requests self'))
      = Some ([Fixed, Open], 0)"
  by (simp add: string_eval store_eval bot_eval demo_eval matcher_eval twoTiedBugs_def)

section \<open>A completion matched by the AI service\<close>

text \<open>
  Claim C2 at the input where the code departs from it. Bug 1 is fixed, bugs 2 and 3
  are open, the text "done" matches neither, and the service answers the request with
  bug 1: \<open>handleCompletion\<close> takes the answer as it comes and writes the status of
  bug 1 once more, with a new \<open>updated_at\<close>.
\<close>

theorem ai_match_rewrites_fixed_bug:
  "map (\<lambda>b. (b_id b, b_status b, b_updated_at b)) (bugs oneFixedTwoOpen)
     = [(1, Fixed, 100), (2, Open, 200), (3, Open, 300)]
   \<and> (case handleMessage asciiLowerCase demoGateway 5000 (demoMessage 400 (CHECK @ str '' done'') None)
             (demoBot (Some bugOneAnalyzer) oneFixedTwoOpen) of
         Inl e \<Rightarrow> None
       | Inr self' \<Rightarrow> Some (map (\<lambda>b. (b_id b, b_status b, b_updated_at b)) (bugs (bot_db self')),
                            bot_requests self'))
      = Some ([(1, Fixed, 5000), (2, Open, 200), (3, Open, 300)], 1)"
  by (simp add: oneFixedTwoOpen_def matcher_eval string_eval store_eval bot_eval demo_eval)

section \<open>Plain messages that reply to nothing\<close>


text \<open>
  Of two rows with the same \<open>updated_at\<close> the one inserted first comes first, and it is
  the one that \<open>LIMIT\<close> keeps.
\<close>

lemma tied_rows_in_table_order:
  "map b_id (getOpenBugs tiedBugs) = [6, 5, 4, 3, 1, 2]"
  "map b_id (getRecentlyActiveBugs tiedBugs 7 5) = [6, 5, 4, 3, 1]"
  by (simp_all add: getOpenBugs_def getRecentlyActiveBugs_def tiedBugs_def demo_eval newBug_def)

lemma find_id_Some: "find (\<lambda>b. Some (b_id b) = Some i) bs = Some b \<Longrightarrow> b \<in> set bs \<and> b_id b = i"
  using find_key_Some [of b_id i bs b] by simp






lemma sample_any_news:
  "\<not> isNewBugReport (str ''any news'')" "\<not> isCompletionMarker (str ''any news'')"
  by (simp_all add: string_eval)


section \<open>One message of a scan\<close>

lemma find_append_None:
  "find P xs = None \<Longrightarrow> find P (xs @ ys) = find P ys"
  by (induction xs) (auto split: if_splits)

lemma addBug_bugs:
  "bugs (snd (addBug bug db)) = bugs db
   \<or> bugs (snd (addBug bug db)) = bugs db @ [bug\<lparr>b_id := Suc (bugs_seq db)\<rparr>]"
  by (simp add: addBug_def Let_def)

lemma addBug_other_fields [simp]:
  "bug_updates (snd (addBug bug db)) = bug_updates db"
  "scan_state (snd (addBug bug db)) = scan_state db"
  "monitored_channels (snd (addBug bug db)) = monitored_channels db"
  by (simp_all add: addBug_def Let_def)

lemma addBug_keeps_status:
  "map b_status (take (length (bugs db)) (bugs (snd (addBug bug db)))) = map b_status (bugs db)"
  using addBug_bugs [of bug db] by auto

lemma addBugUpdate_keeps:
  assumes "addBugUpdate update db = Inr (r, db')"
  shows "map b_status (bugs db') = map b_status (bugs db)"
    and "scan_state db' = scan_state db"
    and "monitored_channels db' = monitored_channels db"
    and "length (bugs db') = length (bugs db)"
  using assms by (auto simp: addBugUpdate_def Let_def o_def split: if_splits)

lemma scanMessage_keeps_status:
  assumes "isNewBugReport (m_content m) \<or> \<not> isCompletionMarker (m_content m)
           \<or> m_reference m = None"
  shows "map b_status (take (length (bugs (sp_db p))) (bugs (sp_db (snd (scanMessage toLowerCase cn now m p)))))
         = map b_status (bugs (sp_db p))"
proof (cases "m_author_bot m")
  case True
  then show ?thesis by (simp add: scanMessage_def Let_def)
next
  case nb: False
  show ?thesis
  proof (cases "isNewBugReport (m_content m)")
    case True
    with nb show ?thesis
      by (simp add: scanMessage_def Let_def split_beta addBug_keeps_status)
  next
    case nn: False
    show ?thesis
    proof (cases "isCompletionMarker (m_content m)")
      case True
      with assms nn have "m_reference m = None" by simp
      with nb nn True show ?thesis by (simp add: scanMessage_def Let_def)
    next
      case False
      with nb nn show ?thesis
        by (auto simp: scanMessage_def Let_def addBugUpdate_keeps(1,4)
              split: option.splits sum.splits)
    qed
  qed
qed

lemma historyMessage_keeps_status:
  assumes "isNewBugReport (m_content m) \<or> \<not> isCompletionMarker (m_content m)
           \<or> m_reference m = None"
  shows "map b_status (take (length (bugs (hp_db h))) (bugs (hp_db (snd (historyMessage toLowerCase cn now m h)))))
         = map b_status (bugs (hp_db h))"
proof (cases "m_author_bot m")
  case True
  then show ?thesis by (simp add: historyMessage_def)
next
  case nb: False
  show ?thesis
  proof (cases "isNewBugReport (m_content m)")
    case True
    with nb show ?thesis
      by (simp add: historyMessage_def Let_def split_beta addBug_keeps_status)
  next
    case nn: False
    show ?thesis
    proof (cases "m_reference m")
      case None
      with nb nn show ?thesis by (simp add: historyMessage_def)
    next
      case (Some r)
      with assms nn have "\<not> isCompletionMarker (m_content m)" by simp
      with nb nn Some show ?thesis
        by (auto simp: historyMessage_def Let_def addBugUpdate_keeps(1,4)
              split: option.splits sum.splits)
    qed
  qed
qed

text \<open>
  Claim C7. In both scans a message that is classified as a completion (it holds the
  "done" glyph and does not start with the "new issue" glyph) and has no reply
  reference is skipped: the store after it is the store before it and nothing is
  thrown. And whatever message is not a completion with a reply reference leaves the
  status of every row that was there before as it was.
\<close>

theorem scan_skips_standalone_completion:
  "(\<not> isNewBugReport (m_content m) \<and> isCompletionMarker (m_content m) \<and> m_reference m = None
      \<longrightarrow> fst (scanMessage toLowerCase cn now m p) = None
          \<and> sp_db (snd (scanMessage toLowerCase cn now m p)) = sp_db p
          \<and> historyMessage toLowerCase cn now m h = (None, h))
   \<and> (isNewBugReport (m_content m) \<or> \<not> isCompletionMarker (m_content m) \<or> m_reference m = None
      \<longrightarrow> map b_status (take (length (bugs (sp_db p)))
                          (bugs (sp_db (snd (scanMessage toLowerCase cn now m p)))))
            = map b_status (bugs (sp_db p))
          \<and> map b_status (take (length (bugs (hp_db h)))
                          (bugs (hp_db (snd (historyMessage toLowerCase cn now m h)))))
            = map b_status (bugs (hp_db h)))"
proof (intro conjI impI)
  assume a: "\<not> isNewBugReport (m_content m) \<and> isCompletionMarker (m_content m)
             \<and> m_reference m = None"
  then show "fst (scanMessage toLowerCase cn now m p) = None" "sp_db (snd (scanMessage toLowerCase cn now m p)) = sp_db p"
    by (simp_all add: scanMessage_def Let_def)
  from a show "historyMessage toLowerCase cn now m h = (None, h)"
    by (simp add: historyMessage_def)
next
  assume a: "isNewBugReport (m_content m) \<or> \<not> isCompletionMarker (m_content m)
             \<or> m_reference m = None"
  then show "map b_status (take (length (bugs (sp_db p)))
                          (bugs (sp_db (snd (scanMessage toLowerCase cn now m p)))))
            = map b_status (bugs (sp_db p))"
    by (rule scanMessage_keeps_status)
  from a show "map b_status (take (length (bugs (hp_db h)))
                          (bugs (hp_db (snd (historyMessage toLowerCase cn now m h)))))
            = map b_status (bugs (hp_db h))"
    by (rule historyMessage_keeps_status)
qed

theorem scan_skips_standalone_completion_witness:
  "isCompletionMarker (CHECK @ str '' shipped'')
   \<and> sp_db (snd (scanMessage asciiLowerCase ''bugs'' 5000 (demoMessage 300 (CHECK @ str '' shipped'') None)
                   (sampleScan sampleStore))) = sampleStore
   \<and> historyMessage asciiLowerCase ''bugs'' 5000 (demoMessage 300 (CHECK @ str '' shipped'') None)
        (sampleHistory sampleStore) = (None, sampleHistory sampleStore)
   \<and> map b_status (bugs (sp_db (snd (scanMessage asciiLowerCase ''bugs'' 5000
           (demoMessage 300 (CHECK @ str '' shipped'') None) (sampleScan sampleStore))))) = [Open]"
proof -
  have s: "sp_db (sampleScan sampleStore) = sampleStore" "map b_status (bugs sampleStore) = [Open]"
    by (simp_all add: demo_eval)
  from scan_skips_standalone_completion [of "demoMessage 300 (CHECK @ str '' shipped'') None"
      asciiLowerCase "''bugs''" 5000 "sampleScan sampleStore" "sampleHistory sampleStore"]
    sample_standalone_done
  show ?thesis by (simp add: demoMessage_def s)
qed

lemma reactedReport_facts:
  "\<not> m_author_bot reactedReport" "isNewBugReport (m_content reactedReport)"
  "hasCheckReaction (extractReactions reactedReport)"
  "m_id reactedReport \<notin> set (map b_discord_message_id (bugs sampleStore))"
  by (simp_all add: reactedReport_def demo_eval string_eval hasCheckReaction_def
        extractReactions_def newBug_def)

text \<open>
  Claim C10. In both scans a "new issue" message of a human author whose reactions hold
  the check mark, and whose message id is not yet a bug, is inserted with status
  \<open>fixed\<close>: the row that the scan appends, and that a lookup by the message id then
  finds, is the bug built from the message with that status. It is never stored as
  open first.
\<close>

theorem scan_creates_reacted_bug_fixed:
  assumes "\<not> m_author_bot m" "isNewBugReport (m_content m)"
    "hasCheckReaction (extractReactions m)"
    "m_id m \<notin> set (map b_discord_message_id (bugs db))"
  shows "(sp_db p = db
          \<longrightarrow> fst (scanMessage toLowerCase cn now m p) = None
              \<and> bugs (sp_db (snd (scanMessage toLowerCase cn now m p)))
                  = bugs db @ [(newBug toLowerCase cn Fixed m)\<lparr>b_id := Suc (bugs_seq db)\<rparr>]
              \<and> map_option b_status (getBugByMessageId (sp_db (snd (scanMessage toLowerCase cn now m p))) (m_id m))
                  = Some Fixed)
       \<and> (hp_db h = db
          \<longrightarrow> fst (historyMessage toLowerCase cn now m h) = None
              \<and> bugs (hp_db (snd (historyMessage toLowerCase cn now m h)))
                  = bugs db @ [(newBug toLowerCase cn Fixed m)\<lparr>b_id := Suc (bugs_seq db)\<rparr>]
              \<and> map_option b_status (getBugByMessageId (hp_db (snd (historyMessage toLowerCase cn now m h))) (m_id m))
                  = Some Fixed)"
proof -
  have none: "find (\<lambda>b. b_discord_message_id b = m_id m) (bugs db) = None"
    using assms(4) by (simp add: find_key_None)
  have add: "snd (addBug (newBug toLowerCase cn Fixed m) db)
             = db\<lparr>bugs := bugs db @ [(newBug toLowerCase cn Fixed m)\<lparr>b_id := Suc (bugs_seq db)\<rparr>],
                  bugs_seq := Suc (bugs_seq db)\<rparr>"
    using addBug_fresh [of "newBug toLowerCase cn Fixed m" db] assms(4) by simp
  have look: "map_option b_status (getBugByMessageId
      (db\<lparr>bugs := bugs db @ [(newBug toLowerCase cn Fixed m)\<lparr>b_id := Suc (bugs_seq db)\<rparr>],
          bugs_seq := Suc (bugs_seq db)\<rparr>) (m_id m)) = Some Fixed"
    by (simp add: getBugByMessageId_def find_append_None [OF none])
  show ?thesis
    using assms(1-3) add look
    by (auto simp: scanMessage_def historyMessage_def Let_def split_beta)
qed

theorem scan_creates_reacted_bug_fixed_witness:
  "hasCheckReaction (extractReactions reactedReport)
   \<and> bugs (sp_db (snd (scanMessage asciiLowerCase ''bugs'' 5000 reactedReport (sampleScan sampleStore))))
       = bugs sampleStore @ [(newBug asciiLowerCase ''bugs'' Fixed reactedReport)\<lparr>b_id := Suc (Suc 0)\<rparr>]
   \<and> bugs (hp_db (snd (historyMessage asciiLowerCase ''bugs'' 5000 reactedReport (sampleHistory sampleStore))))
       = bugs sampleStore @ [(newBug asciiLowerCase ''bugs'' Fixed reactedReport)\<lparr>b_id := Suc (Suc 0)\<rparr>]
   \<and> map_option b_status (getBugByMessageId
         (sp_db (snd (scanMessage asciiLowerCase ''bugs'' 5000 reactedReport (sampleScan sampleStore)))) 600)
       = Some Fixed"
proof -
  have s: "sp_db (sampleScan sampleStore) = sampleStore"
    "hp_db (sampleHistory sampleStore) = sampleStore"
    "bugs_seq sampleStore = Suc 0" "m_id reactedReport = 600"
    by (simp_all add: demo_eval reactedReport_def)
  from scan_creates_reacted_bug_fixed [OF reactedReport_facts, of "sampleScan sampleStore"
      asciiLowerCase "''bugs''" 5000 "sampleHistory sampleStore"] reactedReport_facts(3)
  show ?thesis by (simp add: s)
qed

section \<open>The watermark\<close>

lemma scanMessage_scan_state:
  "scan_state (sp_db (snd (scanMessage toLowerCase cn now m p))) = scan_state (sp_db p)"
  by (auto simp: scanMessage_def Let_def split_beta addBugUpdate_keeps(2)
        split: option.splits sum.splits)

lemma scanBatch_scan_state:
  "scan_state (sp_db (snd (scanBatch toLowerCase cn now ms p))) = scan_state (sp_db p)"
proof (induction ms arbitrary: p)
  case Nil
  then show ?case by simp
next
  case (Cons m ms)
  obtain e p' where s: "scanMessage toLowerCase cn now m p = (e, p')"
    by (cases "scanMessage toLowerCase cn now m p")
  then have "scan_state (sp_db p') = scan_state (sp_db p)"
    using scanMessage_scan_state [of toLowerCase cn now m p] by simp
  with s Cons.IH [of p'] show ?case by (cases e) simp_all
qed

lemma scanMessage_newest:
  "sp_newestMessageId (snd (scanMessage toLowerCase cn now m p))
     = Some (case sp_newestMessageId p of None \<Rightarrow> m_id m | Some k \<Rightarrow> max k (m_id m))"
  by (auto simp: scanMessage_def Let_def split_beta max_def split: option.splits sum.splits)

lemma Max_absorb:
  assumes "finite A" "A \<noteq> {}" "finite B"
  shows "Max (B \<union> {Max A}) = Max (B \<union> A)"
proof (cases "B = {}")
  case True
  then show ?thesis by simp
next
  case False
  with assms show ?thesis by (simp add: Max_Un max.commute)
qed

lemma scanBatch_newest:
  assumes "fst (scanBatch toLowerCase cn now ms p) = None" "ms \<noteq> []"
  shows "sp_newestMessageId (snd (scanBatch toLowerCase cn now ms p))
           = Some (Max (set (map m_id ms) \<union> set_option (sp_newestMessageId p)))"
  using assms
proof (induction ms arbitrary: p)
  case Nil
  then show ?case by simp
next
  case (Cons m ms)
  obtain e p1 where s: "scanMessage toLowerCase cn now m p = (e, p1)"
    by (cases "scanMessage toLowerCase cn now m p")
  from Cons.prems(1) s have e: "e = None" by (cases e) simp_all
  let ?O = "set_option (sp_newestMessageId p)"
  have n1: "sp_newestMessageId p1 = Some (Max ({m_id m} \<union> ?O))"
    using scanMessage_newest [of toLowerCase cn now m p] s
    by (cases "sp_newestMessageId p") (simp_all add: max.commute)
  show ?case
  proof (cases "ms = []")
    case True
    with s e n1 show ?thesis by simp
  next
    case False
    from Cons.prems(1) s e have "fst (scanBatch toLowerCase cn now ms p1) = None" by simp
    from Cons.IH [OF this False] n1
    have "sp_newestMessageId (snd (scanBatch toLowerCase cn now ms p1))
            = Some (Max (set (map m_id ms) \<union> {Max ({m_id m} \<union> ?O)}))" by simp
    also have "Max (set (map m_id ms) \<union> {Max ({m_id m} \<union> ?O)})
                 = Max (set (map m_id ms) \<union> ({m_id m} \<union> ?O))"
      by (rule Max_absorb) (cases "sp_newestMessageId p"; simp)+
    finally show ?thesis using s e by (simp add: Un_ac)
  qed
qed


lemma scanLoop_finished:
  assumes "scanLoop toLowerCase fuel gw now ch cn afterId p = Some (Finished p')"
  shows "scan_state (sp_db p') = scan_state (sp_db p)
       \<and> sp_newestMessageId p'
           = (if concat (scanPages fuel gw ch afterId) = [] then sp_newestMessageId p
              else Some (Max (set (map m_id (concat (scanPages fuel gw ch afterId)))
                               \<union> set_option (sp_newestMessageId p))))"
  using assms
proof (induction fuel arbitrary: afterId p)
  case 0
  then show ?case by simp
next
  case (Suc fuel)
  let ?opts = "\<lparr>fo_limit = 100, fo_before = None, fo_after = afterId\<rparr>"
  let ?O = "set_option (sp_newestMessageId p)"
  show ?case
  proof (cases "gw_fetch gw ch ?opts")
    case None
    with Suc.prems show ?thesis by simp
  next
    case (Some messages)
    note fetch = this
    show ?thesis
    proof (cases "messages = []")
      case True
      with fetch Suc.prems show ?thesis by simp
    next
      case ne: False
      let ?sorted = "sort_key m_createdAt messages"
      let ?next = "Some (int (m_id (last ?sorted)))"
      obtain e p1 where b: "scanBatch toLowerCase cn now ?sorted p = (e, p1)"
        by (cases "scanBatch toLowerCase cn now ?sorted p")
      from fetch ne b Suc.prems have e: "e = None" by (cases e) simp_all
      have st1: "scan_state (sp_db p1) = scan_state (sp_db p)"
        using scanBatch_scan_state [of toLowerCase cn now ?sorted p] b by simp
      have "?sorted \<noteq> []"
      proof
        assume "?sorted = []"
        then have "length ?sorted = 0" by (simp only: list.size)
        with ne show False by simp
      qed
      with scanBatch_newest [of toLowerCase cn now ?sorted p] b e
      have new1: "sp_newestMessageId p1 = Some (Max (set (map m_id messages) \<union> ?O))" by simp
      show ?thesis
      proof (cases "length messages < 100")
        case True
        with e fetch ne b Suc.prems have "p' = p1" by simp
        with st1 new1 True fetch ne show ?thesis by simp
      next
        case False
        with e fetch ne b Suc.prems
        have "scanLoop toLowerCase fuel gw now ch cn ?next p1 = Some (Finished p')" by simp
        note IH = Suc.IH [OF this]
        define rest where "rest = concat (scanPages fuel gw ch ?next)"
        from IH st1 have st: "scan_state (sp_db p') = scan_state (sp_db p)" by simp
        have IH': "sp_newestMessageId p'
                     = (if rest = [] then sp_newestMessageId p1
                        else Some (Max (set (map m_id rest) \<union> set_option (sp_newestMessageId p1))))"
          unfolding rest_def by (rule conjunct2 [OF IH])
        have pages: "concat (scanPages (Suc fuel) gw ch afterId) = messages @ rest"
          using fetch ne False by (simp add: rest_def)
        have "sp_newestMessageId p'
                = Some (Max (set (map m_id (messages @ rest)) \<union> ?O))"
        proof (cases "rest = []")
          case True
          with IH' new1 show ?thesis by simp
        next
          case False
          with IH' new1 have "sp_newestMessageId p'
                = Some (Max (set (map m_id rest) \<union> {Max (set (map m_id messages) \<union> ?O)}))"
            by simp
          also have "Max (set (map m_id rest) \<union> {Max (set (map m_id messages) \<union> ?O)})
                       = Max (set (map m_id rest) \<union> (set (map m_id messages) \<union> ?O))"
            using ne by (intro Max_absorb) (cases "sp_newestMessageId p"; simp)+
          finally show ?thesis by (simp add: Un_ac)
        qed
        with st ne show ?thesis unfolding pages by simp
      qed
    qed
  qed
qed

lemma scanLoop_aborted:
  assumes "scanLoop toLowerCase fuel gw now ch cn afterId p = Some (Aborted p')"
  shows "scan_state (sp_db p') = scan_state (sp_db p)"
  using assms
proof (induction fuel arbitrary: afterId p)
  case 0
  then show ?case by simp
next
  case (Suc fuel)
  let ?opts = "\<lparr>fo_limit = 100, fo_before = None, fo_after = afterId\<rparr>"
  show ?case
  proof (cases "gw_fetch gw ch ?opts")
    case None
    with Suc.prems show ?thesis by simp
  next
    case (Some messages)
    show ?thesis
    proof (cases "messages = []")
      case True
      with Some Suc.prems show ?thesis by simp
    next
      case ne: False
      let ?sorted = "sort_key m_createdAt messages"
      obtain e p1 where b: "scanBatch toLowerCase cn now ?sorted p = (e, p1)"
        by (cases "scanBatch toLowerCase cn now ?sorted p")
      have st1: "scan_state (sp_db p1) = scan_state (sp_db p)"
        using scanBatch_scan_state [of toLowerCase cn now ?sorted p] b by simp
      show ?thesis
      proof (cases e)
        case (Some a)
        with \<open>gw_fetch gw ch ?opts = Some messages\<close> ne b Suc.prems have "p' = p1" by simp
        with st1 show ?thesis by simp
      next
        case None
        show ?thesis
        proof (cases "length messages < 100")
          case True
          with None \<open>gw_fetch gw ch ?opts = Some messages\<close> ne b Suc.prems
          show ?thesis by simp
        next
          case False
          with None \<open>gw_fetch gw ch ?opts = Some messages\<close> ne b Suc.prems
          have "scanLoop toLowerCase fuel gw now ch cn (Some (int (m_id (last ?sorted)))) p1
                  = Some (Aborted p')"
            by simp
          from Suc.IH [OF this] st1 show ?thesis by simp
        qed
      qed
    qed
  qed
qed

lemma scanChannel_unfold:
  "scanChannel toLowerCase fuel gw now sinceDate resumeFromSaved ch db =
     (case gw_channel_name gw ch of
        None \<Rightarrow> Some db
      | Some cn \<Rightarrow>
          (case scanLoop toLowerCase fuel gw now ch cn (scanStart sinceDate resumeFromSaved ch db)
                  (scanBegin db) of
             None \<Rightarrow> None
           | Some (Aborted p) \<Rightarrow> Some (sp_db p)
           | Some (Finished p) \<Rightarrow>
               (case sp_newestMessageId p of
                  Some newestMessageId \<Rightarrow> Some (saveScanState ch newestMessageId now (sp_db p))
                | None \<Rightarrow> Some (sp_db p))))"
  by (cases "gw_channel_name gw ch"; cases resumeFromSaved; cases "getScanState db ch";
      cases sinceDate)
     (simp_all add: scanChannel_def scanStart_def scanBegin_def Let_def split_beta)

lemma scanPages_after:
  assumes "\<forall>a ms m. s \<le> a
             \<and> gw_fetch gw ch \<lparr>fo_limit = 100, fo_before = None, fo_after = Some a\<rparr> = Some ms
             \<and> m \<in> set ms \<longrightarrow> a < int (m_id m)"
    and "s \<le> a" "m \<in> set (concat (scanPages fuel gw ch (Some a)))"
  shows "s < int (m_id m)"
  using assms(2,3)
proof (induction fuel arbitrary: a)
  case 0
  then show ?case by simp
next
  case (Suc fuel)
  let ?opts = "\<lparr>fo_limit = 100, fo_before = None, fo_after = Some a\<rparr>"
  show ?case
  proof (cases "gw_fetch gw ch ?opts")
    case None
    with Suc.prems show ?thesis by simp
  next
    case (Some messages)
    with assms(1) Suc.prems(1) have page: "\<And>x. x \<in> set messages \<Longrightarrow> a < int (m_id x)" by blast
    show ?thesis
    proof (cases "messages = []")
      case True
      with Some Suc.prems show ?thesis by simp
    next
      case ne: False
      let ?sorted = "sort_key m_createdAt messages"
      have "?sorted \<noteq> []"
      proof
        assume "?sorted = []"
        then have "length ?sorted = 0" by (simp only: list.size)
        with ne show False by simp
      qed
      then have "last ?sorted \<in> set ?sorted" by (rule last_in_set)
      then have "last ?sorted \<in> set messages" by simp
      with page Suc.prems(1) have nxt: "s \<le> int (m_id (last ?sorted))" by fastforce
      show ?thesis
      proof (cases "length messages < 100")
        case True
        with Some ne Suc.prems(2) have "m \<in> set messages" by simp
        with page Suc.prems(1) show ?thesis by fastforce
      next
        case False
        with Some ne Suc.prems(2)
        have "m \<in> set messages
              \<or> m \<in> set (concat (scanPages fuel gw ch (Some (int (m_id (last ?sorted))))))"
          by simp
        then show ?thesis
        proof
          assume "m \<in> set messages"
          with page Suc.prems(1) show ?thesis by fastforce
        next
          assume "m \<in> set (concat (scanPages fuel gw ch (Some (int (m_id (last ?sorted))))))"
          with Suc.IH [OF nxt] show ?thesis by simp
        qed
      qed
    qed
  qed
qed

lemma savePosition_watermark:
  "(c \<noteq> ch \<longrightarrow> scan_state (savePosition gw now ch db) c = scan_state db c)
   \<and> scan_state (savePosition gw now ch db) ch
       = (case gw_channel_name gw ch of
            None \<Rightarrow> scan_state db ch
          | Some cn \<Rightarrow>
              (case gw_fetch gw ch \<lparr>fo_limit = 1, fo_before = None, fo_after = None\<rparr> of
                 None \<Rightarrow> scan_state db ch
               | Some [] \<Rightarrow> scan_state db ch
               | Some (lastMessage # others) \<Rightarrow> Some (m_id lastMessage, now)))"
  by (auto simp: savePosition_def saveScanState_def split: option.splits list.splits)


lemmas scan_eval = scanExistingMessages_def scanChannels.simps scanChannel_def scanMessage_def
  savePosition_def saveCurrentPosition_def saveScanState_def getScanState_def
  scanGateway_def shutdownGateway_def channelPage_def resumedStore_def scanStart_def
  scanBegin_def

text \<open>
  Claim C8, as the code has it. Handling the messages of a batch never writes the
  watermark, and the scan of one channel leaves the watermark of every other channel
  alone. A scan that is aborted (by an exception of the gateway or of the store), or
  that finds no channel, leaves this channel's watermark as it was. A scan that
  completes writes it once, after the last batch, to the largest id among the messages
  of the pages it has read, with the time of the write; when it has read no message it
  leaves the watermark as it was. A scan that resumes starts from the stored
  watermark. When the scan starts from a cursor at or above the stored watermark and
  the gateway answers each such cursor \<open>after\<close> with messages later than the cursor only,
  the watermark after the scan is at least the stored one. The save at shutdown
  overwrites, without comparing, with the id of the first message of the page of one
  that the gateway returns, and writes nothing when the channel or the page cannot be
  fetched or the page is empty.
\<close>

theorem watermark_written_once_largest_id:
  assumes "scanChannel toLowerCase fuel gw now sinceDate resumeFromSaved ch db = Some db'"
  shows "scan_state (sp_db (snd (scanBatch toLowerCase cn now batch p))) = scan_state (sp_db p)
   \<and> (c \<noteq> ch \<longrightarrow> scan_state db' c = scan_state db c)
   \<and> (gw_channel_name gw ch = None \<longrightarrow> db' = db)
   \<and> (gw_channel_name gw ch = Some cn
        \<and> scanLoop toLowerCase fuel gw now ch cn (scanStart sinceDate resumeFromSaved ch db)
            (scanBegin db) = Some (Aborted q)
      \<longrightarrow> scan_state db' ch = scan_state db ch)
   \<and> (gw_channel_name gw ch = Some cn
        \<and> scanLoop toLowerCase fuel gw now ch cn (scanStart sinceDate resumeFromSaved ch db)
            (scanBegin db) = Some (Finished q)
      \<longrightarrow> scan_state db' ch
            = (if concat (scanPages fuel gw ch (scanStart sinceDate resumeFromSaved ch db)) = []
               then scan_state db ch
               else Some (Max (set (map m_id (concat (scanPages fuel gw ch
                                  (scanStart sinceDate resumeFromSaved ch db))))), now)))
   \<and> (resumeFromSaved \<and> getScanState db ch = Some (w, t)
      \<longrightarrow> scanStart sinceDate resumeFromSaved ch db = Some (int w))
   \<and> (getScanState db ch = Some (w, t)
        \<and> scanStart sinceDate resumeFromSaved ch db = Some s \<and> int w \<le> s
        \<and> (\<forall>a ms m. s \<le> a
              \<and> gw_fetch gw ch \<lparr>fo_limit = 100, fo_before = None, fo_after = Some a\<rparr> = Some ms
              \<and> m \<in> set ms \<longrightarrow> a < int (m_id m))
      \<longrightarrow> (\<exists>w' t'. getScanState db' ch = Some (w', t') \<and> w \<le> w'))
   \<and> (c \<noteq> ch \<longrightarrow> scan_state (savePosition gw now ch db) c = scan_state db c)
   \<and> scan_state (savePosition gw now ch db) ch
       = (case gw_channel_name gw ch of
            None \<Rightarrow> scan_state db ch
          | Some name \<Rightarrow>
              (case gw_fetch gw ch \<lparr>fo_limit = 1, fo_before = None, fo_after = None\<rparr> of
                 None \<Rightarrow> scan_state db ch
               | Some [] \<Rightarrow> scan_state db ch
               | Some (lastMessage # others) \<Rightarrow> Some (m_id lastMessage, now)))"
proof -
  let ?start = "scanStart sinceDate resumeFromSaved ch db"
  define read where "read = concat (scanPages fuel gw ch ?start)"
  note sc = assms [unfolded scanChannel_unfold]
  have aborted: "scan_state db' ch = scan_state db ch \<and> scan_state db' c = scan_state db c"
    if "gw_channel_name gw ch = Some cn"
      "scanLoop toLowerCase fuel gw now ch cn ?start (scanBegin db) = Some (Aborted q)"
    for cn q c
  proof -
    from sc that have "db' = sp_db q" by simp
    with scanLoop_aborted [OF that(2)] show ?thesis by (simp add: scanBegin_def)
  qed
  have finished: "scan_state db' ch
                    = (if read = [] then scan_state db ch
                       else Some (Max (set (map m_id read)), now))
                  \<and> (c \<noteq> ch \<longrightarrow> scan_state db' c = scan_state db c)"
    if "gw_channel_name gw ch = Some cn"
      "scanLoop toLowerCase fuel gw now ch cn ?start (scanBegin db) = Some (Finished q)"
    for cn q c
  proof -
    from scanLoop_finished [OF that(2), folded read_def]
    have st: "scan_state (sp_db q) = scan_state db"
      and n: "sp_newestMessageId q
                = (if read = [] then None else Some (Max (set (map m_id read))))"
      by (simp_all add: scanBegin_def)
    show ?thesis
    proof (cases "read = []")
      case True
      with n sc that have "db' = sp_db q" by simp
      with st True show ?thesis by simp
    next
      case False
      with n sc that have "db' = saveScanState ch (Max (set (map m_id read))) now (sp_db q)"
        by simp
      with st False show ?thesis by (simp add: saveScanState_def)
    qed
  qed
  have others: "scan_state db' c = scan_state db c" if "c \<noteq> ch" for c
  proof (cases "gw_channel_name gw ch")
    case None
    with sc show ?thesis by simp
  next
    case (Some cn)
    show ?thesis
    proof (cases "scanLoop toLowerCase fuel gw now ch cn ?start (scanBegin db)")
      case None
      with sc Some show ?thesis by simp
    next
      case r: (Some r)
      show ?thesis
      proof (cases r)
        case (Finished q)
        with finished [OF Some, of q c] r that show ?thesis by simp
      next
        case (Aborted q)
        with aborted [OF Some, of q c] r show ?thesis by simp
      qed
    qed
  qed
  have mono: "\<exists>w' t'. getScanState db' ch = Some (w', t') \<and> w \<le> w'"
    if g: "getScanState db ch = Some (w, t)" and s: "?start = Some s" "int w \<le> s"
      and h: "\<forall>a ms m. s \<le> a
              \<and> gw_fetch gw ch \<lparr>fo_limit = 100, fo_before = None, fo_after = Some a\<rparr> = Some ms
              \<and> m \<in> set ms \<longrightarrow> a < int (m_id m)"
  proof -
    have "scan_state db' ch = scan_state db ch
          \<or> (read \<noteq> [] \<and> scan_state db' ch = Some (Max (set (map m_id read)), now))"
    proof (cases "gw_channel_name gw ch")
      case None
      with sc show ?thesis by simp
    next
      case (Some cn)
      show ?thesis
      proof (cases "scanLoop toLowerCase fuel gw now ch cn ?start (scanBegin db)")
        case None
        with sc Some show ?thesis by simp
      next
        case r: (Some r)
        show ?thesis
        proof (cases r)
          case (Finished q)
          with finished [OF Some, of q ch] r show ?thesis by (cases "read = []") simp_all
        next
          case (Aborted q)
          with aborted [OF Some, of q ch] r show ?thesis by simp
        qed
      qed
    qed
    then show ?thesis
    proof
      assume "scan_state db' ch = scan_state db ch"
      with g show ?thesis by (simp add: getScanState_def)
    next
      assume a: "read \<noteq> [] \<and> scan_state db' ch = Some (Max (set (map m_id read)), now)"
      then obtain m where m: "m \<in> set read" by (cases read) auto
      with scanPages_after [OF h order_refl, of m fuel] s(1) have "s < int (m_id m)"
        by (simp add: read_def)
      with s(2) have "w \<le> m_id m" by simp
      also from m have "m_id m \<le> Max (set (map m_id read))" by (intro Max_ge) auto
      finally show ?thesis using a by (simp add: getScanState_def)
    qed
  qed
  have start: "?start = Some (int w)" if "resumeFromSaved" "getScanState db ch = Some (w, t)"
    using that by (simp add: scanStart_def)
  have none: "db' = db" if "gw_channel_name gw ch = None"
    using sc that by simp
  have 1: "scan_state (sp_db (snd (scanBatch toLowerCase cn now batch p))) = scan_state (sp_db p)"
    by (rule scanBatch_scan_state)
  have 2: "c \<noteq> ch \<longrightarrow> scan_state db' c = scan_state db c"
    using others by blast
  have 3: "gw_channel_name gw ch = None \<longrightarrow> db' = db"
    using none by blast
  have 4: "gw_channel_name gw ch = Some cn
        \<and> scanLoop toLowerCase fuel gw now ch cn ?start (scanBegin db) = Some (Aborted q)
      \<longrightarrow> scan_state db' ch = scan_state db ch"
    using aborted [of cn q ch] by blast
  have 5: "gw_channel_name gw ch = Some cn
        \<and> scanLoop toLowerCase fuel gw now ch cn ?start (scanBegin db) = Some (Finished q)
      \<longrightarrow> scan_state db' ch
            = (if read = [] then scan_state db ch else Some (Max (set (map m_id read)), now))"
    using finished [of cn q ch] by blast
  have 6: "resumeFromSaved \<and> getScanState db ch = Some (w, t) \<longrightarrow> ?start = Some (int w)"
    using start by blast
  have 7: "getScanState db ch = Some (w, t) \<and> ?start = Some s \<and> int w \<le> s
        \<and> (\<forall>a ms m. s \<le> a
              \<and> gw_fetch gw ch \<lparr>fo_limit = 100, fo_before = None, fo_after = Some a\<rparr> = Some ms
              \<and> m \<in> set ms \<longrightarrow> a < int (m_id m))
      \<longrightarrow> (\<exists>w' t'. getScanState db' ch = Some (w', t') \<and> w \<le> w')"
    using mono by blast
  note 8 = savePosition_watermark [of c ch gw now db]
  from 1 2 3 4 5 6 7 8 show ?thesis unfolding read_def by blast
qed


lemma resumed_scan:
  "scanStart None True 7 resumedStore = Some 400"
  "getScanState resumedStore 7 = Some (400, 1)"
  "gw_channel_name scanGateway 7 = Some ''bugs''"
  "map m_id (concat (scanPages (Suc 0) scanGateway 7 (Some 400))) = [500, 499]"
  "scanLoop asciiLowerCase (Suc 0) scanGateway 5000 7 ''bugs'' (Some 400) (scanBegin resumedStore)
     = Some (Finished ((scanBegin resumedStore)
               \<lparr>sp_totalScanned := Suc (Suc 0), sp_newestMessageId := Some 500\<rparr>))"
  "scanChannel asciiLowerCase (Suc 0) scanGateway 5000 None True 7 resumedStore
     = Some (resumedStore\<lparr>scan_state := [7 \<mapsto> (500, 5000)]\<rparr>)"
  by (simp_all add: scan_eval sample_plain sample_any_news demo_eval)

lemma failed_scan:
  "gw_channel_name demoGateway 7 = Some ''bugs''"
  "gw_channel_name demoGateway 9 = None"
  "scanLoop asciiLowerCase (Suc 0) demoGateway 5000 7 ''bugs'' (Some 400) (scanBegin resumedStore)
     = Some (Aborted (scanBegin resumedStore))"
  "scanChannel asciiLowerCase (Suc 0) demoGateway 5000 None True 7 resumedStore = Some resumedStore"
  "scanChannel asciiLowerCase (Suc 0) demoGateway 5000 None True 9 resumedStore = Some resumedStore"
  by (simp_all add: scan_eval demo_eval)

lemma scanGateway_after:
  "\<forall>a ms m. 400 \<le> a
     \<and> gw_fetch scanGateway 7 \<lparr>fo_limit = 100, fo_before = None, fo_after = Some a\<rparr> = Some ms
     \<and> m \<in> set ms \<longrightarrow> a < int (m_id m)"
  by (auto simp: scanGateway_def channelPage_def dest!: in_set_takeD)

theorem watermark_written_once_largest_id_witness:
  "scanChannel asciiLowerCase (Suc 0) scanGateway 5000 None True 7 resumedStore
     = Some (resumedStore\<lparr>scan_state := [7 \<mapsto> (500, 5000)]\<rparr>)
   \<and> getScanState resumedStore 7 = Some (400, 1)
   \<and> map m_id (concat (scanPages (Suc 0) scanGateway 7 (scanStart None True 7 resumedStore)))
       = [500, 499]
   \<and> scan_state (resumedStore\<lparr>scan_state := [7 \<mapsto> (500, 5000)]\<rparr>) 7
       = Some (Max (set [500, 499]), 5000)
   \<and> scan_state (resumedStore\<lparr>scan_state := [7 \<mapsto> (500, 5000)]\<rparr>) 8 = scan_state resumedStore 8
   \<and> (\<exists>w' t'. getScanState (resumedStore\<lparr>scan_state := [7 \<mapsto> (500, 5000)]\<rparr>) 7 = Some (w', t')
         \<and> 400 \<le> w')
   \<and> scanLoop asciiLowerCase (Suc 0) demoGateway 5000 7 ''bugs'' (Some 400) (scanBegin resumedStore)
       = Some (Aborted (scanBegin resumedStore))
   \<and> scanChannel asciiLowerCase (Suc 0) demoGateway 5000 None True 7 resumedStore = Some resumedStore
   \<and> gw_channel_name demoGateway 9 = None
   \<and> scanChannel asciiLowerCase (Suc 0) demoGateway 5000 None True 9 resumedStore = Some resumedStore"
proof -
  note b = watermark_written_once_largest_id [OF failed_scan(4),
      where cn = "''bugs''" and q = "scanBegin resumedStore" and c = 8]
  note c = watermark_written_once_largest_id [OF failed_scan(5), where c = 8]
  have 4: "scan_state resumedStore 7 = Some (400, 1)"
    using b failed_scan(1,3) resumed_scan(1,2) by (simp add: getScanState_def)
  have 5: "scan_state resumedStore 9 = None"
    using c failed_scan(2) by (simp add: resumedStore_def demoStore_def)
  note a = watermark_written_once_largest_id [OF resumed_scan(6),
      where cn = "''bugs''" and batch = "[]" and p = "scanBegin resumedStore" and c = 8
        and q = "(scanBegin resumedStore)
                   \<lparr>sp_totalScanned := Suc (Suc 0), sp_newestMessageId := Some 500\<rparr>"
        and w = 400 and t = 1 and s = 400]
  have 1: "scan_state (resumedStore\<lparr>scan_state := [7 \<mapsto> (500, 5000)]\<rparr>) 7
             = Some (Max (set [500, 499]), 5000)"
    using a resumed_scan by simp
  have 2: "scan_state (resumedStore\<lparr>scan_state := [7 \<mapsto> (500, 5000)]\<rparr>) 8
             = scan_state resumedStore 8"
    using a by simp
  have 3: "\<exists>w' t'. getScanState (resumedStore\<lparr>scan_state := [7 \<mapsto> (500, 5000)]\<rparr>) 7 = Some (w', t')
             \<and> 400 \<le> w'"
    using a resumed_scan(1,2) scanGateway_after by simp
  from 1 2 3 4 5 resumed_scan failed_scan show ?thesis by simp
qed

theorem watermark_regresses_counterexample:
  "map_option (\<lambda>self'. getScanState (bot_db self') 7)
     (scanExistingMessages asciiLowerCase (Suc 0) scanGateway 5000 None True (demoBot None resumedStore))
     = Some (Some (500, 5000))
   \<and> map_option (\<lambda>self'. getScanState (bot_db (saveCurrentPosition shutdownGateway 6000 self')) 7)
     (scanExistingMessages asciiLowerCase (Suc 0) scanGateway 5000 None True (demoBot None resumedStore))
     = Some (Some (499, 6000))"
  by (simp add: scan_eval sample_plain sample_any_news demo_eval getMonitoredChannelIds_def
        getAllMonitoredChannelIds_def)

section \<open>A fixed bug stays fixed\<close>

lemma staysFixed_nth:
  "staysFixed db db' =
     (length (bugs db) \<le> length (bugs db')
      \<and> (\<forall>i<length (bugs db). b_id (bugs db' ! i) = b_id (bugs db ! i)
            \<and> (b_status (bugs db ! i) = Fixed \<longrightarrow> b_status (bugs db' ! i) = Fixed)))"
  unfolding staysFixed_def by (auto simp: list_all2_conv_all_nth)

lemma staysFixed_refl [simp]: "staysFixed db db"
  by (simp add: staysFixed_nth)

lemma staysFixed_same_bugs: "bugs db' = bugs db \<Longrightarrow> staysFixed db db'"
  by (simp add: staysFixed_nth)

lemma staysFixed_trans: "staysFixed a b \<Longrightarrow> staysFixed b c \<Longrightarrow> staysFixed a c"
  unfolding staysFixed_nth by (auto simp: less_le_trans)

lemma staysFixed_map:
  assumes "bugs db' = map f (bugs db) @ ys"
    and "\<And>b. b_id (f b) = b_id b \<and> (b_status b = Fixed \<longrightarrow> b_status (f b) = Fixed)"
  shows "staysFixed db db'"
  unfolding staysFixed_nth using assms by (auto simp: nth_append)

lemma staysFixed_updateBugStatus: "staysFixed db (updateBugStatus i Fixed now db)"
  by (rule staysFixed_map [where ys = "[]" and f = "\<lambda>b. if b_id b = i
        then b\<lparr>b_status := Fixed, b_updated_at := now\<rparr> else b"])
     (simp_all add: updateBugStatus_def)

lemma staysFixed_updateBugReactions: "staysFixed db (updateBugReactions r rs db)"
  by (rule staysFixed_map [where ys = "[]" and f = "\<lambda>b. if b_discord_message_id b = r
        then b\<lparr>b_reactions := rs\<rparr> else b"])
     (simp_all add: updateBugReactions_def)

lemma staysFixed_updateUpdateReactions: "staysFixed db (updateUpdateReactions r rs db)"
  by (rule staysFixed_same_bugs) (simp add: updateUpdateReactions_def)

lemma staysFixed_saveScanState: "staysFixed db (saveScanState c i now db)"
  by (rule staysFixed_same_bugs) (simp add: saveScanState_def)

lemma staysFixed_addBug: "staysFixed db (snd (addBug bug db))"
  using addBug_bugs [of bug db]
  by (auto intro: staysFixed_same_bugs staysFixed_map [where f = "\<lambda>b. b"])

lemma staysFixed_addBugUpdate:
  assumes "addBugUpdate update db = Inr (r, db')" shows "staysFixed db db'"
proof (cases "u_discord_message_id update \<in> set (map u_discord_message_id (bug_updates db))")
  case True
  with assms show ?thesis by (simp add: addBugUpdate_duplicate)
next
  case False
  with assms have "bugs db' = map (\<lambda>b. if b_id b = u_bug_id update
                               then b\<lparr>b_updated_at := u_created_at update\<rparr> else b) (bugs db) @ []"
    by (auto simp: addBugUpdate_def Let_def split: if_splits)
  then show ?thesis by (rule staysFixed_map) simp
qed

lemma staysFixed_handleCompletion: "staysFixed (bot_db self) (bot_db (handleCompletion toLowerCase now m self))"
  by (auto simp: handleCompletion_def Let_def split_beta staysFixed_updateBugStatus
        split: option.splits)


lemma staysFixed_createBug: "staysFixed (bot_db self) (bot_db (createBug toLowerCase gw m self))"
  by (simp add: createBug_def Let_def split_beta staysFixed_addBug)


lemma staysFixed_handleReply:
  "handleReply m self = Inr (h, self') \<Longrightarrow> staysFixed (bot_db self) (bot_db self')"
  by (auto simp: handleReply_def Let_def split: option.splits sum.splits
        dest: staysFixed_addBugUpdate)


lemma staysFixed_handleContextMessage:
  "handleContextMessage m self = Inr self' \<Longrightarrow> staysFixed (bot_db self) (bot_db self')"
  by (auto simp: handleContextMessage_def Let_def split_beta
        split: option.splits sum.splits if_splits dest: staysFixed_addBugUpdate)


lemma staysFixed_handleMessage:
  assumes "handleMessage toLowerCase gw now m self = Inr self'"
  shows "staysFixed (bot_db self) (bot_db self')"
proof (cases "m_author_bot m \<or> \<not> isMonitoredChannel self (m_channelId m)")
  case True
  have "self' = self"
  proof (cases "m_author_bot m")
    case True
    with assms show ?thesis by (simp add: handleMessage_def)
  next
    case False
    with True assms show ?thesis by (simp add: handleMessage_def)
  qed
  then show ?thesis by simp
next
  case live: False
  show ?thesis
  proof (cases "isNewBugReport (m_content m)")
    case True
    with live assms
    have "self' = addToRecentMessages (m_channelId m) m None (createBug toLowerCase gw m self)"
      by (simp add: handleMessage_def)
    then show ?thesis by (simp add: staysFixed_createBug)
  next
    case nn: False
    show ?thesis
    proof (cases "isCompletionMarker (m_content m)")
      case True
      with live nn assms have "self' = handleCompletion toLowerCase now m self"
        by (simp add: handleMessage_def)
      then show ?thesis by (simp add: staysFixed_handleCompletion)
    next
      case nc: False
      show ?thesis
      proof (cases "m_reference m")
        case None
        with live nn nc assms have "handleContextMessage m self = Inr self'"
          by (simp add: handleMessage_def)
        then show ?thesis by (rule staysFixed_handleContextMessage)
      next
        case (Some r)
        show ?thesis
        proof (cases "handleReply m self")
          case (Inl e)
          with live nn nc Some assms show ?thesis by (simp add: handleMessage_def)
        next
          case (Inr hs)
          obtain h s where hs: "hs = (h, s)" by (cases hs)
          from staysFixed_handleReply [of m self h s] Inr hs
          have 1: "staysFixed (bot_db self) (bot_db s)" by simp
          show ?thesis
          proof (cases h)
            case True
            with live nn nc Some Inr hs assms have "self' = s" by (simp add: handleMessage_def)
            with 1 show ?thesis by simp
          next
            case False
            with live nn nc Some Inr hs assms have "handleContextMessage m s = Inr self'"
              by (simp add: handleMessage_def)
            from staysFixed_trans [OF 1 staysFixed_handleContextMessage [OF this]]
            show ?thesis .
          qed
        qed
      qed
    qed
  qed
qed

lemma staysFixed_updateReactionsIn: "staysFixed db (updateReactionsIn gw i cs db)"
  by (induction cs)
     (auto simp: Let_def staysFixed_updateBugReactions staysFixed_updateUpdateReactions
        split: option.splits)


lemma staysFixed_handleReactionAdd:
  "staysFixed (bot_db self) (bot_db (handleReactionAdd gw now e i self))"
  by (auto simp: handleReactionAdd_def updateMessageReactions_def Let_def
        staysFixed_updateBugStatus staysFixed_updateReactionsIn split: option.splits)


lemma staysFixed_syncUpdates: "staysFixed db (syncUpdates gw now bug us db)"
proof (induction us arbitrary: db)
  case Nil
  then show ?case by simp
next
  case (Cons u us)
  show ?case
  proof (cases "gw_fetch_message gw (b_channel_id bug) (u_discord_message_id u)")
    case None
    then show ?thesis using Cons.IH by simp
  next
    case (Some msg)
    show ?thesis
    proof (cases "hasCheckReaction (extractReactions msg)")
      case True
      with Some show ?thesis
        by (auto intro: staysFixed_trans [OF staysFixed_updateBugStatus
              staysFixed_updateUpdateReactions])
    next
      case False
      with Some show ?thesis
        by (auto intro: staysFixed_trans [OF staysFixed_updateUpdateReactions Cons.IH])
    qed
  qed
qed


lemma staysFixed_syncBug: "staysFixed db (syncBug gw now bug db)"
  by (auto simp: syncBug_def Let_def split: option.splits
        intro: staysFixed_syncUpdates
          staysFixed_trans [OF staysFixed_updateBugStatus staysFixed_updateBugReactions]
          staysFixed_trans [OF staysFixed_updateBugReactions staysFixed_syncUpdates])


lemma staysFixed_fold:
  assumes "\<And>x d. staysFixed d (f x d)"
  shows "staysFixed db (fold f xs db)"
proof (induction xs arbitrary: db)
  case Nil
  then show ?case by simp
next
  case (Cons x xs)
  from assms [of db x] Cons.IH [of "f x db"] show ?case
    by (auto intro: staysFixed_trans)
qed


lemma staysFixed_syncReactionsOnOpenBugs:
  "staysFixed (bot_db self) (bot_db (syncReactionsOnOpenBugs gw now self))"
  by (simp add: syncReactionsOnOpenBugs_def staysFixed_fold staysFixed_syncBug)


lemma staysFixed_scanMessage: "staysFixed (sp_db p) (sp_db (snd (scanMessage toLowerCase cn now m p)))"
  by (auto simp: scanMessage_def Let_def split_beta staysFixed_addBug staysFixed_updateBugStatus
        split: option.splits sum.splits dest: staysFixed_addBugUpdate)


lemma staysFixed_scanBatch: "staysFixed (sp_db p) (sp_db (snd (scanBatch toLowerCase cn now ms p)))"
proof (induction ms arbitrary: p)
  case Nil
  then show ?case by simp
next
  case (Cons m ms)
  obtain e p' where s: "scanMessage toLowerCase cn now m p = (e, p')" by (cases "scanMessage toLowerCase cn now m p")
  then have 1: "staysFixed (sp_db p) (sp_db p')"
    using staysFixed_scanMessage [of p toLowerCase cn now m] by simp
  show ?case
  proof (cases e)
    case None
    with s staysFixed_trans [OF 1 Cons.IH [of p']] show ?thesis by simp
  next
    case (Some a)
    with s 1 show ?thesis by simp
  qed
qed


lemma staysFixed_historyMessage: "staysFixed (hp_db h) (hp_db (snd (historyMessage toLowerCase cn now m h)))"
  by (auto simp: historyMessage_def Let_def split_beta staysFixed_addBug staysFixed_updateBugStatus
        split: option.splits sum.splits
        dest: staysFixed_addBugUpdate
        intro: staysFixed_trans [OF staysFixed_updateBugStatus])


lemma staysFixed_savePosition: "staysFixed db (savePosition gw now c db)"
  by (auto simp: savePosition_def staysFixed_saveScanState split: option.splits list.splits)

lemma staysFixed_scanLoop:
  assumes "scanLoop toLowerCase fuel gw now ch cn afterId p = Some r"
  shows "staysFixed (sp_db p) (sp_db (case r of Finished q \<Rightarrow> q | Aborted q \<Rightarrow> q))"
  using assms
proof (induction fuel arbitrary: afterId p)
  case 0
  then show ?case by simp
next
  case (Suc fuel)
  let ?opts = "\<lparr>fo_limit = 100, fo_before = None, fo_after = afterId\<rparr>"
  show ?case
  proof (cases "gw_fetch gw ch ?opts")
    case None
    with Suc.prems show ?thesis by auto
  next
    case (Some messages)
    show ?thesis
    proof (cases "messages = []")
      case True
      with Some Suc.prems show ?thesis by auto
    next
      case ne: False
      let ?sorted = "sort_key m_createdAt messages"
      obtain e p1 where b: "scanBatch toLowerCase cn now ?sorted p = (e, p1)"
        by (cases "scanBatch toLowerCase cn now ?sorted p")
      have 1: "staysFixed (sp_db p) (sp_db p1)"
        using staysFixed_scanBatch [of p toLowerCase cn now ?sorted] b by simp
      show ?thesis
      proof (cases e)
        case (Some a)
        with \<open>gw_fetch gw ch ?opts = Some messages\<close> ne b Suc.prems have "r = Aborted p1" by simp
        with 1 show ?thesis by simp
      next
        case None
        show ?thesis
        proof (cases "length messages < 100")
          case True
          with None \<open>gw_fetch gw ch ?opts = Some messages\<close> ne b Suc.prems
          have "r = Finished p1" by simp
          with 1 show ?thesis by simp
        next
          case False
          with None \<open>gw_fetch gw ch ?opts = Some messages\<close> ne b Suc.prems
          have "scanLoop toLowerCase fuel gw now ch cn (Some (int (m_id (last ?sorted)))) p1 = Some r"
            by simp
          from staysFixed_trans [OF 1 Suc.IH [OF this]] show ?thesis .
        qed
      qed
    qed
  qed
qed

lemma staysFixed_scanChannel:
  assumes "scanChannel toLowerCase fuel gw now sinceDate resumeFromSaved ch db = Some db'"
  shows "staysFixed db db'"
proof (cases "gw_channel_name gw ch")
  case None
  with assms show ?thesis by (simp add: scanChannel_def)
next
  case (Some cn)
  define afterId where "afterId =
     (case (if resumeFromSaved
            then (case getScanState db ch of
                    Some (lastMessageId, lastScanAt) \<Rightarrow> Some (int lastMessageId)
                  | None \<Rightarrow> None)
            else None) of
        Some a \<Rightarrow> Some a
      | None \<Rightarrow> (case sinceDate of Some date \<Rightarrow> Some (dateToSnowflake date) | None \<Rightarrow> None))"
  define p0 where "p0 = \<lparr>sp_db = db, sp_bugsFound = 0, sp_updatesFound = 0, sp_bugsFixed = 0,
                      sp_totalScanned = 0, sp_newestMessageId = None\<rparr>"
  have sc: "scanChannel toLowerCase fuel gw now sinceDate resumeFromSaved ch db =
     (case scanLoop toLowerCase fuel gw now ch cn afterId p0 of
        None \<Rightarrow> None
      | Some (Aborted p) \<Rightarrow> Some (sp_db p)
      | Some (Finished p) \<Rightarrow>
          (case sp_newestMessageId p of
             Some newestMessageId \<Rightarrow> Some (saveScanState ch newestMessageId now (sp_db p))
           | None \<Rightarrow> Some (sp_db p)))"
    by (simp add: scanChannel_def Some afterId_def p0_def Let_def)
  show ?thesis
  proof (cases "scanLoop toLowerCase fuel gw now ch cn afterId p0")
    case None
    with sc assms show ?thesis by simp
  next
    case (Some r)
    from staysFixed_scanLoop [OF Some]
    have 1: "staysFixed db (sp_db (case r of Finished q \<Rightarrow> q | Aborted q \<Rightarrow> q))"
      by (simp add: p0_def)
    show ?thesis
    proof (cases r)
      case (Aborted p)
      with Some sc assms 1 show ?thesis by simp
    next
      case (Finished p)
      show ?thesis
      proof (cases "sp_newestMessageId p")
        case None
        with Some Finished sc assms 1 show ?thesis by simp
      next
        case (Some n)
        with \<open>scanLoop toLowerCase fuel gw now ch cn afterId p0 = Some r\<close> Finished sc assms
        have "db' = saveScanState ch n now (sp_db p)" by simp
        with 1 Finished staysFixed_saveScanState [of "sp_db p" ch n now]
        show ?thesis by (auto intro: staysFixed_trans)
      qed
    qed
  qed
qed

lemma staysFixed_scanChannels:
  "scanChannels toLowerCase fuel gw now sinceDate resumeFromSaved cs db = Some db' \<Longrightarrow> staysFixed db db'"
proof (induction cs arbitrary: db)
  case Nil
  then show ?case by simp
next
  case (Cons c cs)
  then obtain d where d: "scanChannel toLowerCase fuel gw now sinceDate resumeFromSaved c db = Some d"
      "scanChannels toLowerCase fuel gw now sinceDate resumeFromSaved cs d = Some db'"
    by (auto split: option.splits)
  from staysFixed_trans [OF staysFixed_scanChannel [OF d(1)] Cons.IH [OF d(2)]]
  show ?case .
qed

lemma staysFixed_historyBatch: "staysFixed (hp_db h) (hp_db (snd (historyBatch toLowerCase cn now ms h)))"
proof (induction ms arbitrary: h)
  case Nil
  then show ?case by simp
next
  case (Cons m ms)
  obtain e h' where s: "historyMessage toLowerCase cn now m h = (e, h')"
    by (cases "historyMessage toLowerCase cn now m h")
  then have 1: "staysFixed (hp_db h) (hp_db h')"
    using staysFixed_historyMessage [of h toLowerCase cn now m] by simp
  show ?case
  proof (cases e)
    case None
    with s staysFixed_trans [OF 1 Cons.IH [of h']] show ?thesis by simp
  next
    case (Some a)
    with s 1 show ?thesis by simp
  qed
qed

lemma staysFixed_historyLoop:
  "staysFixed (hp_db h) (hp_db (historyLoop toLowerCase gw now ch cn maxMessages lastId seen h))"
proof (induction toLowerCase gw now ch cn maxMessages lastId seen h rule: historyLoop.induct)
  case (1 toLowerCase gw now ch cn maxMessages lastId seen h)
  show ?case
  proof (cases "seen < maxMessages")
    case False
    then show ?thesis by (simp add: historyLoop.simps)
  next
    case more: True
    let ?n = "min 100 (maxMessages - seen)"
    let ?opts = "\<lparr>fo_limit = ?n, fo_before = lastId, fo_after = None\<rparr>"
    show ?thesis
    proof (cases "gw_fetch gw ch ?opts")
      case None
      with more show ?thesis by (simp add: historyLoop.simps [of toLowerCase gw now ch cn maxMessages lastId seen h])
    next
      case (Some messages)
      show ?thesis
      proof (cases "messages = []")
        case True
        with more Some show ?thesis
          by (simp add: historyLoop.simps [of toLowerCase gw now ch cn maxMessages lastId seen h])
      next
        case ne: False
        let ?sorted = "sort_key m_createdAt messages"
        obtain e h1 where b: "historyBatch toLowerCase cn now ?sorted h = (e, h1)"
          by (cases "historyBatch toLowerCase cn now ?sorted h")
        have 1: "staysFixed (hp_db h) (hp_db h1)"
          using staysFixed_historyBatch [of h toLowerCase cn now ?sorted] b by simp
        show ?thesis
        proof (cases e)
          case (Some a)
          with more \<open>gw_fetch gw ch ?opts = Some messages\<close> ne b 1 show ?thesis
            by (simp add: historyLoop.simps [of toLowerCase gw now ch cn maxMessages lastId seen h])
        next
          case None
          show ?thesis
          proof (cases "length messages < ?n")
            case True
            with None more \<open>gw_fetch gw ch ?opts = Some messages\<close> ne b 1 show ?thesis
              by (auto simp: historyLoop.simps [of toLowerCase gw now ch cn maxMessages lastId seen h])
          next
            case False
            from "1.IH" [OF more refl \<open>gw_fetch gw ch ?opts = Some messages\<close> _ refl
                b [symmetric] None False] ne
            have 2: "staysFixed (hp_db h1)
                (hp_db (historyLoop toLowerCase gw now ch cn maxMessages (Some (m_id (hd ?sorted)))
                          (seen + length messages) h1))"
              by simp
            from None more \<open>gw_fetch gw ch ?opts = Some messages\<close> ne b False
            have "historyLoop toLowerCase gw now ch cn maxMessages lastId seen h
                  = historyLoop toLowerCase gw now ch cn maxMessages (Some (m_id (hd ?sorted)))
                          (seen + length messages) h1"
              by (auto simp: historyLoop.simps [of toLowerCase gw now ch cn maxMessages lastId seen h])
            with staysFixed_trans [OF 1 2] show ?thesis by simp
          qed
        qed
      qed
    qed
  qed
qed

text \<open>
  On every path of the bot (live messages, reactions, the reaction sync, both scans
  and the save at shutdown) no bug row is lost and a fixed bug stays fixed: the bot
  passes \<open>'fixed'\<close> to every \<open>updateBugStatus\<close>.
\<close>

lemma fixed_bug_stays_fixed:
  "(handleMessage toLowerCase gw now m self = Inr self' \<longrightarrow> staysFixed (bot_db self) (bot_db self'))
   \<and> staysFixed (bot_db self) (bot_db (handleReactionAdd gw now emojiName messageId self))
   \<and> staysFixed (bot_db self) (bot_db (syncReactionsOnOpenBugs gw now self))
   \<and> (scanExistingMessages toLowerCase fuel gw now sinceDate resumeFromSaved self = Some scanned
        \<longrightarrow> staysFixed (bot_db self) (bot_db scanned))
   \<and> staysFixed (bot_db self) (bot_db (snd (scanChannelHistory toLowerCase gw now ch maxMessages self)))
   \<and> staysFixed (bot_db self) (bot_db (saveCurrentPosition gw now self))"
proof (intro conjI impI)
  assume "handleMessage toLowerCase gw now m self = Inr self'"
  then show "staysFixed (bot_db self) (bot_db self')" by (rule staysFixed_handleMessage)
next
  show "staysFixed (bot_db self) (bot_db (handleReactionAdd gw now emojiName messageId self))"
    by (rule staysFixed_handleReactionAdd)
next
  show "staysFixed (bot_db self) (bot_db (syncReactionsOnOpenBugs gw now self))"
    by (rule staysFixed_syncReactionsOnOpenBugs)
next
  assume "scanExistingMessages toLowerCase fuel gw now sinceDate resumeFromSaved self = Some scanned"
  then show "staysFixed (bot_db self) (bot_db scanned)"
    by (auto simp: scanExistingMessages_def split: option.splits
          dest: staysFixed_scanChannels)
next
  show "staysFixed (bot_db self) (bot_db (snd (scanChannelHistory toLowerCase gw now ch maxMessages self)))"
    by (auto simp: scanChannelHistory_def Let_def staysFixed_historyLoop
          [of "\<lparr>hp_db = bot_db self, hp_bugsFound = 0, hp_updatesFound = 0\<rparr>", simplified]
          split: option.splits)
next
  show "staysFixed (bot_db self) (bot_db (saveCurrentPosition gw now self))"
    by (simp add: saveCurrentPosition_def staysFixed_fold staysFixed_savePosition)
qed

section \<open>Well-formedness is an invariant of the bot\<close>

lemma db_ok_handleCompletion:
  "db_ok (bot_db self) \<Longrightarrow> db_ok (bot_db (handleCompletion toLowerCase now m self))"
  by (auto simp: handleCompletion_def Let_def split_beta db_ok_updateBugStatus
        split: option.splits)

lemma db_ok_createBug: "db_ok (bot_db self) \<Longrightarrow> db_ok (bot_db (createBug toLowerCase gw m self))"
  by (simp add: createBug_def Let_def split_beta db_ok_addBug)

lemma db_ok_handleReply:
  "handleReply m self = Inr (h, self') \<Longrightarrow> db_ok (bot_db self) \<Longrightarrow> db_ok (bot_db self')"
  by (auto simp: handleReply_def Let_def split: option.splits sum.splits
        dest: db_ok_addBugUpdate)

lemma db_ok_handleContextMessage:
  "handleContextMessage m self = Inr self' \<Longrightarrow> db_ok (bot_db self) \<Longrightarrow> db_ok (bot_db self')"
  by (auto simp: handleContextMessage_def Let_def split_beta
        split: option.splits sum.splits if_splits dest: db_ok_addBugUpdate)

lemma db_ok_handleMessage:
  assumes "handleMessage toLowerCase gw now m self = Inr self'" and ok: "db_ok (bot_db self)"
  shows "db_ok (bot_db self')"
proof (cases "m_author_bot m \<or> \<not> isMonitoredChannel self (m_channelId m)")
  case True
  have "self' = self"
  proof (cases "m_author_bot m")
    case True
    with assms show ?thesis by (simp add: handleMessage_def)
  next
    case False
    with True assms show ?thesis by (simp add: handleMessage_def)
  qed
  with ok show ?thesis by simp
next
  case live: False
  show ?thesis
  proof (cases "isNewBugReport (m_content m)")
    case True
    with live assms
    have "self' = addToRecentMessages (m_channelId m) m None (createBug toLowerCase gw m self)"
      by (simp add: handleMessage_def)
    with ok show ?thesis by (simp add: db_ok_createBug)
  next
    case nn: False
    show ?thesis
    proof (cases "isCompletionMarker (m_content m)")
      case True
      with live nn assms have "self' = handleCompletion toLowerCase now m self"
        by (simp add: handleMessage_def)
      with ok show ?thesis by (simp add: db_ok_handleCompletion)
    next
      case nc: False
      show ?thesis
      proof (cases "m_reference m")
        case None
        with live nn nc assms have "handleContextMessage m self = Inr self'"
          by (simp add: handleMessage_def)
        then show ?thesis using ok by (rule db_ok_handleContextMessage)
      next
        case (Some r)
        show ?thesis
        proof (cases "handleReply m self")
          case (Inl e)
          with live nn nc Some assms show ?thesis by (simp add: handleMessage_def)
        next
          case (Inr hs)
          obtain h s where hs: "hs = (h, s)" by (cases hs)
          from db_ok_handleReply [of m self h s] Inr hs ok
          have 1: "db_ok (bot_db s)" by simp
          show ?thesis
          proof (cases h)
            case True
            with live nn nc Some Inr hs assms have "self' = s" by (simp add: handleMessage_def)
            with 1 show ?thesis by simp
          next
            case False
            with live nn nc Some Inr hs assms have "handleContextMessage m s = Inr self'"
              by (simp add: handleMessage_def)
            then show ?thesis using 1 by (rule db_ok_handleContextMessage)
          qed
        qed
      qed
    qed
  qed
qed

lemma db_ok_handleMessages:
  "handleMessages toLowerCase gw events self = Inr self' \<Longrightarrow> db_ok (bot_db self) \<Longrightarrow> db_ok (bot_db self')"
proof (induction events arbitrary: self)
  case Nil
  then show ?case by simp
next
  case (Cons e events)
  then obtain s where s: "handleMessage toLowerCase gw (fst e) (snd e) self = Inr s"
      "handleMessages toLowerCase gw events s = Inr self'"
    by (auto split: sum.splits)
  from Cons.IH [OF s(2) db_ok_handleMessage [OF s(1) Cons.prems(2)]] show ?case .
qed

lemma db_ok_scanMessage:
  "db_ok (sp_db p) \<Longrightarrow> db_ok (sp_db (snd (scanMessage toLowerCase cn now m p)))"
  by (auto simp: scanMessage_def Let_def split_beta db_ok_addBug db_ok_updateBugStatus
        split: option.splits sum.splits dest: db_ok_addBugUpdate)

lemma db_ok_historyMessage:
  "db_ok (hp_db h) \<Longrightarrow> db_ok (hp_db (snd (historyMessage toLowerCase cn now m h)))"
  by (auto simp: historyMessage_def Let_def split_beta db_ok_addBug db_ok_updateBugStatus
        split: option.splits sum.splits
        dest: db_ok_addBugUpdate [OF db_ok_updateBugStatus] db_ok_addBugUpdate)

lemma db_ok_updateReactionsIn: "db_ok db \<Longrightarrow> db_ok (updateReactionsIn gw i cs db)"
  by (induction cs)
     (auto simp: Let_def db_ok_updateBugReactions db_ok_updateUpdateReactions
        split: option.splits)

lemma db_ok_handleReactionAdd:
  "db_ok (bot_db self) \<Longrightarrow> db_ok (bot_db (handleReactionAdd gw now e i self))"
  by (auto simp: handleReactionAdd_def updateMessageReactions_def Let_def
        db_ok_updateBugStatus db_ok_updateReactionsIn split: option.splits)

end
